theory Spec2Isabelle
  imports Main "HOL-Library.Option_ord"
begin

section \<open>Strings\<close>

text \<open>
  A JavaScript string is a sequence of UTF-16 code units. The model uses \<open>string\<close>, whose
  characters are the code units U+0000 to U+00FF (the Latin-1 range); \<open>code_unit\<close> is
  \<open>charCodeAt\<close>. Inside that range the functions below are the ECMAScript ones.
\<close>

definition code_unit :: "char \<Rightarrow> nat" where
  "code_unit c = of_char c"

text \<open>The regular expression class \<open>\s\<close> (and the characters \<open>String.prototype.trim\<close> strips):
  TAB, LF, VT, FF, CR, SPACE and NO-BREAK SPACE.\<close>

definition is_space :: "char \<Rightarrow> bool" where
  "is_space c = (code_unit c \<in> {9, 10, 11, 12, 13, 32, 160})"

text \<open>The class \<open>[a-z0-9]\<close>.\<close>

definition is_az09 :: "char \<Rightarrow> bool" where
  "is_az09 c = (let n = code_unit c in (97 \<le> n \<and> n \<le> 122) \<or> (48 \<le> n \<and> n \<le> 57))"

definition is_hyphen :: "char \<Rightarrow> bool" where
  "is_hyphen c = (c = CHR ''-'')"

text \<open>\<open>String.prototype.toLowerCase\<close>, one code unit at a time: A-Z, and the Latin-1 capitals
  U+00C0 to U+00DE without the multiplication sign U+00D7, move up by 32.\<close>

definition toLowerCase_char :: "char \<Rightarrow> char" where
  "toLowerCase_char c =
     (let n = code_unit c
      in if (65 \<le> n \<and> n \<le> 90) \<or> (192 \<le> n \<and> n \<le> 222 \<and> n \<noteq> 215)
         then char_of (n + 32) else c)"

definition toLowerCase :: "string \<Rightarrow> string" where
  "toLowerCase s = map toLowerCase_char s"

text \<open>\<open>s.replace(/X+/g, '-')\<close> for a character class \<open>X\<close>: every maximal run of characters of
  the class becomes one hyphen.\<close>

function replace_runs :: "(char \<Rightarrow> bool) \<Rightarrow> string \<Rightarrow> string" where
  "replace_runs P [] = []"
| "replace_runs P (c # cs) =
     (if P c then CHR ''-'' # replace_runs P (dropWhile P cs) else c # replace_runs P cs)"
  by pat_completeness auto
termination
  by (relation "measure (\<lambda>(P, s). length s)") (auto simp: le_imp_less_Suc length_dropWhile_le)

text \<open>Stripping the characters of a class from both ends; \<open>trim\<close> is the instance for
  white space.\<close>

definition strip_ends :: "(char \<Rightarrow> bool) \<Rightarrow> string \<Rightarrow> string" where
  "strip_ends P s = rev (dropWhile P (rev (dropWhile P s)))"

definition trim :: "string \<Rightarrow> string" where
  "trim s = strip_ends is_space s"

section \<open>Slugs\<close>

text \<open>
  \<open>PostSchema.methods.generateSlug\<close> (models/Post.ts):
  \<^verbatim>\<open>this.title.toLowerCase().replace(/[^a-z0-9\s-]/g, '').replace(/\s+/g, '-')
      .replace(/-+/g, '-').trim()\<close>
\<close>

definition slug_keep :: "char \<Rightarrow> bool" where
  "slug_keep c = (is_az09 c \<or> is_space c \<or> is_hyphen c)"

definition generateSlug :: "string \<Rightarrow> string" where
  "generateSlug title =
     trim (replace_runs is_hyphen (replace_runs is_space (filter slug_keep (toLowerCase title))))"

text \<open>
  \<open>BlogService.generateSlugFromTitle\<close> (services/BlogService.ts) differs in the first
  regular expression, \<open>/[^a-z0-9 -]/g\<close>: of the white space only the space character is kept.
\<close>

definition slug_keep_blog :: "char \<Rightarrow> bool" where
  "slug_keep_blog c = (is_az09 c \<or> c = CHR '' '' \<or> is_hyphen c)"

definition generateSlugFromTitle :: "string \<Rightarrow> string" where
  "generateSlugFromTitle title =
     trim (replace_runs is_hyphen (replace_runs is_space (filter slug_keep_blog (toLowerCase title))))"

text \<open>
  The reference definition, from the words of the specification: lowercase, remove every
  character not in \<open>[a-z0-9\s-]\<close>, collapse runs of white space to a single hyphen, collapse
  runs of hyphens to one, trim leading and trailing hyphens and white space.
\<close>

definition slugify_spec :: "string \<Rightarrow> string" where
  "slugify_spec title =
     strip_ends (\<lambda>c. is_hyphen c \<or> is_space c)
       (replace_runs is_hyphen (replace_runs is_space (filter slug_keep (toLowerCase title))))"

text \<open>A string that begins or ends with a hyphen.\<close>

definition hyphen_ended :: "string \<Rightarrow> bool" where
  "hyphen_ended s = (s \<noteq> [] \<and> (is_hyphen (hd s) \<or> is_hyphen (last s)))"

text \<open>A string that begins or ends with white space.\<close>

definition space_ended :: "string \<Rightarrow> bool" where
  "space_ended s = (s \<noteq> [] \<and> (is_space (hd s) \<or> is_space (last s)))"

text \<open>A title whose only white space is the space character.\<close>

definition only_plain_spaces :: "string \<Rightarrow> bool" where
  "only_plain_spaces s = list_all (\<lambda>c. c = CHR '' '' \<or> \<not> is_space c) s"

section \<open>Reading time\<close>

text \<open>
  \<open>content.split(/\s+/)\<close>: the pieces between the maximal runs of white space. A run at the
  start leaves an empty piece before it, a run at the end an empty piece after it, and the
  empty string gives one empty piece.
\<close>

fun split_ws :: "string \<Rightarrow> string list" where
  "split_ws [] = [[]]"
| "split_ws (c # cs) =
     (if is_space c
      then (if cs \<noteq> [] \<and> is_space (hd cs) then split_ws cs else [] # split_ws cs)
      else (case split_ws cs of [] \<Rightarrow> [[c]] | w # ws \<Rightarrow> (c # w) # ws))"

text \<open>\<open>Math.ceil(a / b)\<close> on natural numbers (for the lengths a string can have, the
  division in double precision does not change the result).\<close>

definition ceil_div :: "nat \<Rightarrow> nat \<Rightarrow> nat" where
  "ceil_div a b = (a + b - 1) div b"

text \<open>
  \<open>PostSchema.methods.calculateReadTime\<close>:
  \<^verbatim>\<open>const wordsPerMinute = 200;
  const wordCount = this.content.split(/\s+/).length;
  return Math.ceil(wordCount / wordsPerMinute) || 1;\<close>
\<close>

definition calculateReadTime :: "string \<Rightarrow> nat" where
  "calculateReadTime content' =
     (let wordsPerMinute = 200;
          wordCount = length (split_ws content');
          r = ceil_div wordCount wordsPerMinute
      in if r = 0 then 1 else r)"

text \<open>
  The specification's reading time: \<open>max(1, ceil(wordCount / 200))\<close>, where \<open>wordCount\<close> is
  the number of words, a word being a maximal run of characters that are not white space.
  \<open>word_starts\<close> counts the characters that begin a word.
\<close>

fun word_starts :: "bool \<Rightarrow> string \<Rightarrow> nat" where
  "word_starts after_space [] = 0"
| "word_starts after_space (c # cs) =
     (if \<not> is_space c \<and> after_space then 1 else 0) + word_starts (is_space c) cs"

definition wordCount_spec :: "string \<Rightarrow> nat" where
  "wordCount_spec s = word_starts True s"

definition readTime_spec :: "string \<Rightarrow> nat" where
  "readTime_spec s = max 1 (ceil_div (wordCount_spec s) 200)"

section \<open>Data model\<close>

text \<open>
  An \<open>ObjectId\<close> is a natural number and a \<open>Date\<close> the number of milliseconds since the
  epoch. Optional fields are options; for a string field that the code tests with \<open>!\<close>
  (\<open>slug\<close>, \<open>excerpt\<close>) the empty string stands for the absent value as well, since the code
  does not tell them apart. \<open>seoData\<close> is left out: no operation below reads or writes it.
\<close>

type_synonym objid = nat
type_synonym time = int

datatype UserRole = USER | ADMIN | MODERATOR

datatype PostStatus = DRAFT | PUBLISHED | ARCHIVED

record user_profile =
  bio :: "string option"
  avatar :: "string option"
  location :: "string option"
  website :: "string option"
  twitter :: "string option"
  linkedin :: "string option"
  github :: "string option"

record user =
  u_id :: objid
  email :: string
  username :: string
  password :: string
  firstName :: string
  lastName :: string
  age :: "int option"
  roles :: "UserRole list"
  profile :: user_profile
  isActive :: bool
  lastLogin :: "time option"
  u_createdAt :: time
  u_updatedAt :: time

record post =
  p_id :: objid
  title :: string
  slug :: string
  content :: string
  excerpt :: string
  author :: objid
  categories :: "string list"
  tags :: "string list"
  featuredImage :: "string option"
  status :: PostStatus
  publishedAt :: "time option"
  readTime :: nat
  views :: nat
  likes :: "objid list"
  p_createdAt :: time
  p_updatedAt :: time

record comment =
  c_id :: objid
  c_post :: objid
  c_author :: objid
  c_content :: string
  parentComment :: "objid option"
  isApproved :: bool
  c_likes :: nat
  c_createdAt :: time
  c_updatedAt :: time

text \<open>The three collections, each in the store's natural order.\<close>

record store =
  users :: "user list"
  posts :: "post list"
  comments :: "comment list"

text \<open>
  What the operations raise: Mongoose's \<open>CastError\<close> for an ill-formed id in a query, the
  services' own \<open>Error\<close>s by their message, a validation failure of \<open>save\<close>, the store's
  duplicate-key error of a unique index (E11000), and the store's rejection of an ill-formed
  regular expression.
\<close>

datatype error =
    CastError
  | InvalidPostId
  | PostNotFound
  | EmailAlreadyRegistered
  | UsernameAlreadyTaken
  | ValidationFailed
  | DuplicateKey
  | InvalidRegex

section \<open>The store's query operations\<close>

text \<open>\<open>findOneAndUpdate\<close>: the first document that satisfies the filter is replaced.\<close>

fun update_first :: "('a \<Rightarrow> bool) \<Rightarrow> ('a \<Rightarrow> 'a) \<Rightarrow> 'a list \<Rightarrow> 'a list" where
  "update_first P f [] = []"
| "update_first P f (x # xs) = (if P x then f x # xs else x # update_first P f xs)"

text \<open>
  \<open>sort({k: -1})\<close>: descending by the key. The store leaves the order of documents with equal
  keys open; the model keeps them in their order of storage. An absent key (\<open>None\<close>) is below
  every present one.
\<close>

definition sort_desc :: "('a \<Rightarrow> 'k::linorder) \<Rightarrow> 'a list \<Rightarrow> 'a list" where
  "sort_desc k xs = rev (sort_key k (rev xs))"

text \<open>\<open>limit(n)\<close>: a limit of 0 is no limit.\<close>

definition apply_limit :: "nat \<Rightarrow> 'a list \<Rightarrow> 'a list" where
  "apply_limit n xs = (if n = 0 then xs else take n xs)"

text \<open>\<open>{field: {$in: values}}\<close> on an array field: some element of the field is among the
  values.\<close>

definition any_in :: "'a list \<Rightarrow> 'a list \<Rightarrow> bool" where
  "any_in field_values wanted = list_ex (\<lambda>x. x \<in> set wanted) field_values"

text \<open>The string fields of a user document by path; a path the documents do not have gives
  \<open>None\<close>.\<close>

definition user_field :: "user \<Rightarrow> string \<Rightarrow> string option" where
  "user_field u path =
     (if path = ''email'' then Some (email u)
      else if path = ''username'' then Some (username u)
      else if path = ''firstName'' then Some (firstName u)
      else if path = ''lastName'' then Some (lastName u)
      else if path = ''profile.bio'' then bio (profile u)
      else if path = ''profile.avatar'' then avatar (profile u)
      else if path = ''profile.location'' then location (profile u)
      else if path = ''profile.website'' then website (profile u)
      else None)"

text \<open>
  \<open>populate(path, select)\<close> replaces a user id by the selected fields of the user with that
  id, or by null (\<open>None\<close>) when there is none.
\<close>

record author_doc =
  a_id :: objid
  a_fields :: "(string \<times> string) list"

definition select_user :: "string list \<Rightarrow> user \<Rightarrow> author_doc" where
  "select_user paths u =
     \<lparr>a_id = u_id u,
      a_fields = concat (map (\<lambda>f. case user_field u f of None \<Rightarrow> [] | Some v \<Rightarrow> [(f, v)]) paths)\<rparr>"

definition populate_user :: "user list \<Rightarrow> string list \<Rightarrow> objid \<Rightarrow> author_doc option" where
  "populate_user us paths i = map_option (select_user paths) (find (\<lambda>u. u_id u = i) us)"

text \<open>A post as a query returns it: the stored document, the field selection
  (\<open>select('-content')\<close> is \<open>AllBut [''content'']\<close>) and the populated author.\<close>

datatype selection = AllBut "string list" | Only "string list"

record post_doc =
  pd_post :: post
  pd_select :: selection
  pd_author :: "author_doc option"

section \<open>Post: the save hook and publishing\<close>

text \<open>
  \<open>content.replace(/(<([^>]+)>)/gi, '')\<close>: a tag is \<open><\<close>, at least one character other than
  \<open>>\<close>, and \<open>>\<close>; scanning from the left, every tag is removed.
\<close>

function strip_tags :: "string \<Rightarrow> string" where
  "strip_tags [] = []"
| "strip_tags (c # cs) =
     (if c = CHR ''<'' \<and> takeWhile (\<lambda>x. x \<noteq> CHR ''>'') cs \<noteq> []
           \<and> dropWhile (\<lambda>x. x \<noteq> CHR ''>'') cs \<noteq> []
      then strip_tags (tl (dropWhile (\<lambda>x. x \<noteq> CHR ''>'') cs))
      else c # strip_tags cs)"
  by pat_completeness auto
termination
  by (relation "measure length")
     (auto simp: less_Suc_eq_le intro: order_trans [OF diff_le_self length_dropWhile_le])

text \<open>
  \<open>PostSchema.methods.isPublished\<close>:
  \<^verbatim>\<open>this.status === PostStatus.PUBLISHED && this.publishedAt != null
      && this.publishedAt <= new Date()\<close>
\<close>

definition isPublished :: "time \<Rightarrow> post \<Rightarrow> bool" where
  "isPublished now p =
     (status p = PUBLISHED \<and> (case publishedAt p of None \<Rightarrow> False | Some t \<Rightarrow> t \<le> now))"

text \<open>
  \<open>PostSchema.pre('save')\<close>. \<open>isModified('content')\<close> and \<open>isModified('status')\<close> are the two
  flags, \<open>now\<close> is \<open>new Date()\<close>. The hook fills an empty slug from the title, recomputes the
  reading time of changed content, stamps \<open>publishedAt\<close> when the status has changed to
  published and no date is set, and derives an empty excerpt from the content. (The schema's
  \<open>lowercase\<close> setter on \<open>slug\<close> and \<open>trim\<close> setter on \<open>excerpt\<close> leave the assigned values as
  they are.)
\<close>

definition pre_save :: "time \<Rightarrow> bool \<Rightarrow> bool \<Rightarrow> post \<Rightarrow> post" where
  "pre_save now contentModified statusModified p0 =
     (let p1 = (if slug p0 = [] \<and> title p0 \<noteq> [] then p0\<lparr>slug := generateSlug (title p0)\<rparr> else p0);
          p2 = (if contentModified then p1\<lparr>readTime := calculateReadTime (content p1)\<rparr> else p1);
          p3 = (if statusModified \<and> status p2 = PUBLISHED \<and> publishedAt p2 = None
                then p2\<lparr>publishedAt := Some now\<rparr> else p2);
          p4 = (if excerpt p3 = [] \<and> content p3 \<noteq> []
                then p3\<lparr>excerpt := trim (take 150 (strip_tags (content p3))) @ ''...''\<rparr> else p3)
      in p4)"

text \<open>
  \<open>BlogService.publishPost\<close>:
  \<^verbatim>\<open>Post.findByIdAndUpdate(postId, {status: PUBLISHED, publishedAt: new Date()}, {new: true})\<close>
  and \<open>Error('Post with id ... not found')\<close> when there is no such post. The update goes to
  the store directly, so the save hook does not run; the schema's timestamps set
  \<open>updatedAt\<close>. \<open>castObjectId\<close> is Mongoose's reading of an id string (\<open>None\<close>: not a
  well-formed id).
\<close>

definition publishPost ::
  "(string \<Rightarrow> objid option) \<Rightarrow> store \<Rightarrow> time \<Rightarrow> string \<Rightarrow> error + (store \<times> post)" where
  "publishPost castObjectId st now postId =
     (case castObjectId postId of
        None \<Rightarrow> Inl CastError
      | Some i \<Rightarrow>
          (case find (\<lambda>p. p_id p = i) (posts st) of
             None \<Rightarrow> Inl PostNotFound
           | Some p \<Rightarrow>
               (let p' = p\<lparr>status := PUBLISHED, publishedAt := Some now, p_updatedAt := now\<rparr>
                in Inr (st\<lparr>posts := update_first (\<lambda>p. p_id p = i) (\<lambda>_. p') (posts st)\<rparr>, p'))))"

section \<open>Comments\<close>

record comment_input =
  ci_postId :: string
  ci_authorId :: string
  ci_content :: string
  ci_parentCommentId :: "string option"

text \<open>\<open>Comment.countDocuments({author: authorId, isApproved: true})\<close>.\<close>

definition countApproved :: "comment list \<Rightarrow> objid \<Rightarrow> nat" where
  "countApproved cs a = length (filter (\<lambda>c. c_author c = a \<and> isApproved c) cs)"

text \<open>
  \<open>BlogService.addComment\<close>. The count query casts the author id first (an ill-formed id
  raises). \<open>save\<close> validates the new document: ids must be well-formed, the content, trimmed
  by the schema, must be non-empty and at most 1000 characters long. \<open>newId\<close> is the id the
  driver generates, \<open>now\<close> the time of the call.
\<close>

definition addComment ::
  "(string \<Rightarrow> objid option) \<Rightarrow> store \<Rightarrow> objid \<Rightarrow> time \<Rightarrow> comment_input
    \<Rightarrow> error + (store \<times> comment)" where
  "addComment castObjectId st newId now commentData =
     (case castObjectId (ci_authorId commentData) of
        None \<Rightarrow> Inl CastError
      | Some a \<Rightarrow>
          (let previousApprovedComments = countApproved (comments st) a;
               text' = trim (ci_content commentData)
           in case castObjectId (ci_postId commentData) of
                None \<Rightarrow> Inl ValidationFailed
              | Some p \<Rightarrow>
                  if (case ci_parentCommentId commentData of
                        None \<Rightarrow> False | Some s \<Rightarrow> castObjectId s = None)
                     \<or> text' = [] \<or> length text' > 1000
                  then Inl ValidationFailed
                  else
                    (let c = \<lparr>c_id = newId, c_post = p, c_author = a, c_content = text',
                              parentComment = (case ci_parentCommentId commentData of
                                                 None \<Rightarrow> None | Some s \<Rightarrow> castObjectId s),
                              isApproved = (previousApprovedComments > 5),
                              c_likes = 0, c_createdAt = now, c_updatedAt = now\<rparr>
                     in Inr (st\<lparr>comments := comments st @ [c]\<rparr>, c))))"

text \<open>A comment as \<open>getPostWithComments\<close> returns it, and a top-level comment with its replies
  (the virtual \<open>replies\<close>: the comments whose \<open>parentComment\<close> is this comment).\<close>

record comment_doc =
  cd_comment :: comment
  cd_author :: "author_doc option"

record thread =
  th_top :: comment_doc
  th_replies :: "comment_doc list"

definition populate_comment :: "user list \<Rightarrow> comment \<Rightarrow> comment_doc" where
  "populate_comment us c =
     \<lparr>cd_comment = c,
      cd_author = populate_user us [''username'', ''profile.avatar''] (c_author c)\<rparr>"

text \<open>
  The population of \<open>replies\<close> with \<open>match: {isApproved: true}\<close>, \<open>sort: {createdAt: 1}\<close> and
  \<open>limit: 50\<close>. Mongoose runs one query for all the comments being populated: the approved
  replies to any of them, oldest first, at most 50 times the number of those comments. It
  then gives each comment its own replies among the fetched ones, at most 50.
\<close>

definition fetch_replies :: "store \<Rightarrow> comment list \<Rightarrow> comment list" where
  "fetch_replies st parents =
     take (50 * length parents)
       (sort_key c_createdAt
          (filter (\<lambda>r. (case parentComment r of
                           None \<Rightarrow> False | Some i \<Rightarrow> i \<in> set (map c_id parents))
                        \<and> isApproved r)
             (comments st)))"

definition populate_replies :: "store \<Rightarrow> comment list \<Rightarrow> comment \<Rightarrow> comment_doc list" where
  "populate_replies st parents c =
     map (populate_comment (users st))
       (take 50 (filter (\<lambda>r. parentComment r = Some (c_id c)) (fetch_replies st parents)))"

text \<open>
  \<open>PostService.getPostWithComments\<close>: \<open>Error('Invalid post ID')\<close> for an ill-formed id, no
  comments when the post does not exist, and otherwise the approved top-level comments of the
  post, newest first, at most 50, each with its replies.
\<close>

definition getPostWithComments ::
  "(string \<Rightarrow> objid option) \<Rightarrow> store \<Rightarrow> string \<Rightarrow> error + (post_doc option \<times> thread list)" where
  "getPostWithComments castObjectId st postId =
     (case castObjectId postId of
        None \<Rightarrow> Inl InvalidPostId
      | Some i \<Rightarrow>
          (case find (\<lambda>p. p_id p = i) (posts st) of
             None \<Rightarrow> Inr (None, [])
           | Some p \<Rightarrow>
               (let post' = \<lparr>pd_post = p, pd_select = AllBut [],
                             pd_author = populate_user (users st)
                               [''username'', ''firstName'', ''lastName'', ''profile.avatar''] (author p)\<rparr>;
                    found = filter (\<lambda>c. c_post c = i \<and> isApproved c \<and> parentComment c = None)
                              (comments st);
                    tops = take 50 (sort_desc c_createdAt found)
                in Inr (Some post',
                        map (\<lambda>c. \<lparr>th_top = populate_comment (users st) c,
                                   th_replies = populate_replies st tops c\<rparr>) tops))))"

section \<open>Search\<close>

text \<open>
  \<open>SearchService.findAuthorsByName\<close>: the ids of the users one of whose \<open>firstName\<close>,
  \<open>lastName\<close> and \<open>username\<close> matches \<open>{$regex: name, $options: 'i'}\<close>. The regular
  expression engine is the store's: \<open>regex_i name\<close> is the matcher of the pattern \<open>name\<close>,
  case-insensitive and unanchored, or \<open>None\<close> when the store rejects the pattern.
\<close>

definition findAuthorsByName ::
  "(string \<Rightarrow> (string \<Rightarrow> bool) option) \<Rightarrow> user list \<Rightarrow> string \<Rightarrow> error + objid list" where
  "findAuthorsByName regex_i us name =
     (case regex_i name of
        None \<Rightarrow> Inl InvalidRegex
      | Some m \<Rightarrow>
          Inr (map u_id (filter (\<lambda>u. m (firstName u) \<or> m (lastName u) \<or> m (username u)) us)))"

text \<open>The search criteria, and the filter object \<open>searchQuery\<close> built from them.\<close>

record search_criteria =
  q_text :: "string option"
  q_categories :: "string list option"
  q_tags :: "string list option"
  q_author :: "string option"
  q_dateRange :: "(time \<times> time) option"
  q_minViews :: "int option"
  q_hasImage :: "bool option"

record search_query =
  sq_status :: PostStatus
  sq_text :: "string option"
  sq_categories :: "string list option"
  sq_tags :: "string list option"
  sq_author :: "objid list option"
  sq_publishedAt :: "(time \<times> time) option"
  sq_views :: "int option"
  sq_featuredImage :: "bool option"

text \<open>
  \<open>Post.find(searchQuery)\<close>, one document at a time. \<open>sq_categories\<close> and \<open>sq_tags\<close> are
  \<open>$in\<close> clauses, \<open>sq_publishedAt\<close> is \<open>{$gte, $lte}\<close>, \<open>sq_views\<close> is \<open>{$gte}\<close>,
  \<open>sq_featuredImage\<close> is \<open>{$exists: true, $ne: null}\<close> or \<open>{$exists: false}\<close>. \<open>sq_author\<close>
  holds the array of ids the code assigns to \<open>author\<close>; Mongoose queries an array given for a
  single-valued path as \<open>$in\<close>. \<open>textScore t p\<close> is the store's full-text score of \<open>p\<close> for the
  search string \<open>t\<close>, \<open>None\<close> when \<open>p\<close> does not match.
\<close>

definition matches_query :: "(string \<Rightarrow> post \<Rightarrow> 's option) \<Rightarrow> search_query \<Rightarrow> post \<Rightarrow> bool" where
  "matches_query textScore q p =
     (status p = sq_status q
      \<and> (case sq_text q of None \<Rightarrow> True | Some t \<Rightarrow> textScore t p \<noteq> None)
      \<and> (case sq_categories q of None \<Rightarrow> True | Some cs \<Rightarrow> any_in (categories p) cs)
      \<and> (case sq_tags q of None \<Rightarrow> True | Some ts \<Rightarrow> any_in (tags p) ts)
      \<and> (case sq_author q of None \<Rightarrow> True | Some ids \<Rightarrow> author p \<in> set ids)
      \<and> (case sq_publishedAt q of
            None \<Rightarrow> True
          | Some (a, b) \<Rightarrow> (case publishedAt p of None \<Rightarrow> False | Some t \<Rightarrow> a \<le> t \<and> t \<le> b))
      \<and> (case sq_views q of None \<Rightarrow> True | Some n \<Rightarrow> n \<le> int (views p))
      \<and> (case sq_featuredImage q of None \<Rightarrow> True | Some b \<Rightarrow> (featuredImage p \<noteq> None) = b))"

text \<open>
  \<open>SearchService.searchPosts\<close>. Each \<open>if (query.x)\<close> of the source is a test for a present
  and truthy value: a non-empty string, a non-empty list, a number other than 0. Only the
  author lookup can raise. With a text query the result is sorted by descending score and
  then by descending \<open>publishedAt\<close>, otherwise by descending \<open>publishedAt\<close>; at most 50
  documents are returned, without their content and with the author populated.
\<close>

definition searchPosts ::
  "(string \<Rightarrow> (string \<Rightarrow> bool) option) \<Rightarrow> (string \<Rightarrow> post \<Rightarrow> ('s::linorder) option)
    \<Rightarrow> store \<Rightarrow> search_criteria \<Rightarrow> error + post_doc list" where
  "searchPosts regex_i textScore st query =
     (case (case q_author query of
              None \<Rightarrow> Inr None
            | Some name \<Rightarrow>
                if name = [] then Inr None
                else map_sum id Some (findAuthorsByName regex_i (users st) name)) of
        Inl e \<Rightarrow> Inl e
      | Inr authors \<Rightarrow>
          (let text' = (case q_text query of
                          None \<Rightarrow> None | Some t \<Rightarrow> if t = [] then None else Some t);
               searchQuery =
                 \<lparr>sq_status = PUBLISHED,
                  sq_text = text',
                  sq_categories = (case q_categories query of
                                     None \<Rightarrow> None | Some cs \<Rightarrow> if cs = [] then None else Some cs),
                  sq_tags = (case q_tags query of
                               None \<Rightarrow> None | Some ts \<Rightarrow> if ts = [] then None else Some ts),
                  sq_author = authors,
                  sq_publishedAt = q_dateRange query,
                  sq_views = (case q_minViews query of
                                None \<Rightarrow> None | Some n \<Rightarrow> if n = 0 then None else Some n),
                  sq_featuredImage = q_hasImage query\<rparr>;
               found = filter (matches_query textScore searchQuery) (posts st);
               sorted' = (case text' of
                            None \<Rightarrow> sort_desc publishedAt found
                          | Some t \<Rightarrow> sort_desc (textScore t) (sort_desc publishedAt found))
           in Inr (map (\<lambda>p. \<lparr>pd_post = p, pd_select = AllBut [''content''],
                              pd_author = populate_user (users st)
                                [''username'', ''firstName'', ''lastName''] (author p)\<rparr>)
                     (take 50 sorted'))))"

text \<open>
  \<open>SearchService.findSimilarPosts(postId, limit = 5)\<close>: nothing when the post does not exist;
  otherwise the published posts other than it (\<open>_id: {$ne: postId}\<close>) that share a category
  or a tag with it, newest first, at most \<open>limit\<close>. The selected \<open>likesCount\<close> is a virtual,
  not a stored field.
\<close>

definition findSimilarPosts ::
  "(string \<Rightarrow> objid option) \<Rightarrow> store \<Rightarrow> string \<Rightarrow> nat option \<Rightarrow> error + post_doc list" where
  "findSimilarPosts castObjectId st postId limit =
     (case castObjectId postId of
        None \<Rightarrow> Inl CastError
      | Some i \<Rightarrow>
          (case find (\<lambda>p. p_id p = i) (posts st) of
             None \<Rightarrow> Inr []
           | Some post' \<Rightarrow>
               (let similarPosts =
                      filter (\<lambda>p. p_id p \<noteq> i \<and> status p = PUBLISHED
                                \<and> (any_in (categories p) (categories post')
                                    \<or> any_in (tags p) (tags post')))
                        (posts st)
                in Inr (map (\<lambda>p. \<lparr>pd_post = p,
                                   pd_select = Only [''title'', ''slug'', ''excerpt'', ''author'',
                                                     ''publishedAt'', ''views'', ''likesCount''],
                                   pd_author = populate_user (users st)
                                     [''username'', ''firstName'', ''lastName''] (author p)\<rparr>)
                          (apply_limit (case limit of None \<Rightarrow> 5 | Some n \<Rightarrow> n)
                             (sort_desc publishedAt similarPosts))))))"

section \<open>Popular posts\<close>

text \<open>A row of the aggregation of \<open>getPopularPostsThisWeek\<close>: the fields of its \<open>$project\<close>
  stage. The author is an id before the \<open>$lookup\<close> stage and a user's fields after it.\<close>

record 'a popular_post =
  pp_id :: objid
  pp_title :: string
  pp_slug :: string
  pp_author :: 'a
  pp_views :: nat
  pp_likesCount :: nat
  pp_publishedAt :: "time option"
  pp_engagementScore :: nat

text \<open>\<open>{$add: [{$multiply: ['$views', 1]}, {$multiply: ['$likesCount', 5]}]}\<close>.\<close>

definition engagementScore :: "nat \<Rightarrow> nat \<Rightarrow> nat" where
  "engagementScore views' likesCount = views' * 1 + likesCount * 5"

text \<open>
  \<^verbatim>\<open>const weekAgo = new Date(); weekAgo.setDate(weekAgo.getDate() - 7);\<close>
  \<open>setDate\<close> works on the local calendar: the time value is taken to local time, moved back
  seven days there, and taken back. \<open>localTZA t isUTC\<close> is ECMAScript's \<open>LocalTZA\<close>, the
  offset of local time in milliseconds at the time value \<open>t\<close>, which is a UTC time when
  \<open>isUTC\<close> holds and a local time otherwise. Where the offset does not change, the result is
  168 hours before \<open>now\<close>; across a change of daylight saving time it is 167 or 169.
\<close>

definition msPerDay :: time where
  "msPerDay = 24 * 60 * 60 * 1000"

definition weekAgo :: "(time \<Rightarrow> bool \<Rightarrow> time) \<Rightarrow> time \<Rightarrow> time" where
  "weekAgo localTZA now =
     (let local_now = now + localTZA now True;
          local_then = local_now - 7 * msPerDay
      in local_then - localTZA local_then False)"

text \<open>The \<open>$match\<close> stage: \<open>{status: PUBLISHED, publishedAt: {$gte: weekAgo}}\<close>, for the date
  \<open>since\<close>.\<close>

definition popular_match :: "time \<Rightarrow> post \<Rightarrow> bool" where
  "popular_match since p =
     (status p = PUBLISHED \<and> (case publishedAt p of None \<Rightarrow> False | Some t \<Rightarrow> since \<le> t))"

text \<open>The \<open>$addFields\<close> and \<open>$project\<close> stages: \<open>likesCount\<close> is \<open>{$size: '$likes'}\<close>.\<close>

definition popular_project :: "post \<Rightarrow> objid popular_post" where
  "popular_project p =
     (let likesCount = length (likes p)
      in \<lparr>pp_id = p_id p, pp_title = title p, pp_slug = slug p, pp_author = author p,
          pp_views = views p, pp_likesCount = likesCount, pp_publishedAt = publishedAt p,
          pp_engagementScore = engagementScore (views p) likesCount\<rparr>)"

text \<open>
  The \<open>$lookup\<close> and \<open>$unwind\<close> stages: one row for every user whose id is the row's author,
  so a row whose author does not exist is dropped.
\<close>

definition lookup_author :: "user list \<Rightarrow> objid popular_post \<Rightarrow> author_doc popular_post list" where
  "lookup_author us r =
     map (\<lambda>u. \<lparr>pp_id = pp_id r, pp_title = pp_title r, pp_slug = pp_slug r,
                pp_author = select_user [''username'', ''firstName'', ''lastName''] u,
                pp_views = pp_views r, pp_likesCount = pp_likesCount r,
                pp_publishedAt = pp_publishedAt r, pp_engagementScore = pp_engagementScore r\<rparr>)
       (filter (\<lambda>u. u_id u = pp_author r) us)"

text \<open>\<open>SearchService.getPopularPostsThisWeek\<close>: match, project, sort by descending
  \<open>engagementScore\<close>, limit 10, look the authors up.\<close>

definition getPopularPostsThisWeek ::
  "(time \<Rightarrow> bool \<Rightarrow> time) \<Rightarrow> store \<Rightarrow> time \<Rightarrow> author_doc popular_post list" where
  "getPopularPostsThisWeek localTZA st now =
     concat (map (lookup_author (users st))
       (take 10 (sort_desc pp_engagementScore
          (map popular_project (filter (popular_match (weekAgo localTZA now)) (posts st))))))"

section \<open>Users\<close>

record user_input =
  in_email :: string
  in_username :: string
  in_firstName :: string
  in_lastName :: string
  in_password :: string
  in_age :: "int option"
  in_roles :: "UserRole list option"

text \<open>The schema's validators. The e-mail pattern is \<open>/^[^\s@]+@[^\s@]+\.[^\s@]+$/\<close>: one
  \<open>@\<close>, no white space, a non-empty local part, and a domain with a dot that is neither its
  first nor its last character. The username pattern is \<open>/^[a-zA-Z0-9_]+$/\<close>.\<close>

definition valid_email :: "string \<Rightarrow> bool" where
  "valid_email s =
     (let l = takeWhile (\<lambda>c. c \<noteq> CHR ''@'') s;
          r = dropWhile (\<lambda>c. c \<noteq> CHR ''@'') s
      in r \<noteq> [] \<and> l \<noteq> [] \<and> list_all (\<lambda>c. \<not> is_space c) l
         \<and> list_all (\<lambda>c. \<not> is_space c \<and> c \<noteq> CHR ''@'') (tl r)
         \<and> CHR ''.'' \<in> set (butlast (tl (tl r))))"

definition is_username_char :: "char \<Rightarrow> bool" where
  "is_username_char c =
     (let n = code_unit c
      in (97 \<le> n \<and> n \<le> 122) \<or> (65 \<le> n \<and> n \<le> 90) \<or> (48 \<le> n \<and> n \<le> 57) \<or> n = 95)"

definition validate_user :: "user \<Rightarrow> bool" where
  "validate_user u =
     (email u \<noteq> [] \<and> valid_email (email u)
      \<and> 3 \<le> length (username u) \<and> length (username u) \<le> 30
      \<and> list_all is_username_char (username u)
      \<and> 8 \<le> length (password u)
      \<and> firstName u \<noteq> [] \<and> length (firstName u) \<le> 50
      \<and> lastName u \<noteq> [] \<and> length (lastName u) \<le> 50
      \<and> (case age u of None \<Rightarrow> True | Some a \<Rightarrow> 13 \<le> a \<and> a \<le> 120))"

text \<open>\<open>new User(userData)\<close>: the schema's setters (\<open>lowercase\<close> and \<open>trim\<close> on the e-mail,
  \<open>trim\<close> on the names) and defaults.\<close>

definition new_User :: "objid \<Rightarrow> time \<Rightarrow> user_input \<Rightarrow> user" where
  "new_User newId now userData =
     \<lparr>u_id = newId,
      email = trim (toLowerCase (in_email userData)),
      username = in_username userData,
      password = in_password userData,
      firstName = trim (in_firstName userData),
      lastName = trim (in_lastName userData),
      age = in_age userData,
      roles = (case in_roles userData of None \<Rightarrow> [USER] | Some rs \<Rightarrow> rs),
      profile = \<lparr>bio = None, avatar = None, location = None, website = None,
                 twitter = None, linkedin = None, github = None\<rparr>,
      isActive = True,
      lastLogin = None,
      u_createdAt = now,
      u_updatedAt = now\<rparr>"

text \<open>
  \<open>UserService.createUser\<close>. The existence check is
  \<^verbatim>\<open>User.findOne({$or: [{email: userData.email}, {userName: userData.username}]})\<close>
  where the e-mail is cast by the schema (its setters apply to query values) and \<open>userName\<close>
  is not a path of the schema (the field is \<open>username\<close>): Mongoose, with \<open>strictQuery\<close> off
  as by default, hands the clause to the store, which compares it with a field no document
  has. \<open>save\<close>
  validates, and the unique indexes on \<open>email\<close> and \<open>username\<close> reject a duplicate. The
  \<open>catch\<close> block rethrows, a validation error with a new message.
\<close>

definition createUser :: "store \<Rightarrow> objid \<Rightarrow> time \<Rightarrow> user_input \<Rightarrow> error + (store \<times> user)" where
  "createUser st newId now userData =
     (case find (\<lambda>u. user_field u ''email'' = Some (trim (toLowerCase (in_email userData)))
                       \<or> user_field u ''userName'' = Some (in_username userData))
             (users st) of
        Some existingUser \<Rightarrow>
          Inl (if email existingUser = in_email userData
               then EmailAlreadyRegistered else UsernameAlreadyTaken)
      | None \<Rightarrow>
          (let user' = new_User newId now userData
           in if \<not> validate_user user' then Inl ValidationFailed
              else if list_ex (\<lambda>u. email u = email user' \<or> username u = username user') (users st)
              then Inl DuplicateKey
              else Inr (st\<lparr>users := users st @ [user']\<rparr>, user')))"

section \<open>Example data\<close>

text \<open>An instance of \<open>castObjectId\<close>: an id string is 24 hexadecimal digits, read as a
  number.\<close>

definition is_hex :: "char \<Rightarrow> bool" where
  "is_hex c =
     (let n = code_unit c
      in (48 \<le> n \<and> n \<le> 57) \<or> (97 \<le> n \<and> n \<le> 102) \<or> (65 \<le> n \<and> n \<le> 70))"

definition hex_value :: "char \<Rightarrow> nat" where
  "hex_value c =
     (let n = code_unit c in if n \<le> 57 then n - 48 else if 97 \<le> n then n - 87 else n - 55)"

definition hex_objid :: "string \<Rightarrow> objid option" where
  "hex_objid s =
     (if length s = 24 \<and> list_all is_hex s
      then Some (foldl (\<lambda>n c. 16 * n + hex_value c) 0 s) else None)"

text \<open>The case-insensitive substring test: \<open>substring_ci name s\<close> when \<open>name\<close> occurs in \<open>s\<close>,
  letter case aside.\<close>

fun is_prefix :: "string \<Rightarrow> string \<Rightarrow> bool" where
  "is_prefix [] ys = True"
| "is_prefix (x # xs) [] = False"
| "is_prefix (x # xs) (y # ys) = (x = y \<and> is_prefix xs ys)"

fun contains :: "string \<Rightarrow> string \<Rightarrow> bool" where
  "contains pat [] = (pat = [])"
| "contains pat (c # cs) = (is_prefix pat (c # cs) \<or> contains pat cs)"

definition substring_ci :: "string \<Rightarrow> string \<Rightarrow> bool" where
  "substring_ci name s = contains (toLowerCase name) (toLowerCase s)"

text \<open>
  An instance of \<open>regex_i\<close> that agrees with the store's regular expressions on the patterns
  used below: an ordinary character matches itself, letter case aside; a dot matches any
  character but a line feed; the match may begin anywhere in the subject. A pattern that
  holds any other metacharacter is refused, as the store refuses an unmatched parenthesis
  (the store accepts many patterns that this instance refuses; none of them is used below).
\<close>

definition is_regex_meta :: "char \<Rightarrow> bool" where
  "is_regex_meta c = (c \<in> set [CHR 0x5C, CHR ''^'', CHR ''$'', CHR ''.'', CHR ''|'', CHR ''?'',
                               CHR ''*'', CHR ''+'', CHR ''('', CHR '')'', CHR ''['', CHR '']'',
                               CHR ''{'', CHR ''}''])"

fun regex_prefix :: "string \<Rightarrow> string \<Rightarrow> bool" where
  "regex_prefix [] s = True"
| "regex_prefix (p # ps) [] = False"
| "regex_prefix (p # ps) (c # cs) =
     ((if p = CHR ''.'' then c \<noteq> CHR 0x0A else toLowerCase_char p = toLowerCase_char c)
      \<and> regex_prefix ps cs)"

fun regex_search :: "string \<Rightarrow> string \<Rightarrow> bool" where
  "regex_search pat [] = (pat = [])"
| "regex_search pat (c # cs) = (regex_prefix pat (c # cs) \<or> regex_search pat cs)"

definition dot_regex_i :: "string \<Rightarrow> (string \<Rightarrow> bool) option" where
  "dot_regex_i pat =
     (if list_all (\<lambda>c. c = CHR ''.'' \<or> \<not> is_regex_meta c) pat
      then Some (regex_search pat) else None)"

text \<open>An instance of \<open>localTZA\<close>: local time is UTC.\<close>

definition utc_zone :: "time \<Rightarrow> bool \<Rightarrow> time" where
  "utc_zone t isUTC = 0"

text \<open>An instance of \<open>textScore\<close>: no full-text index, nothing matches.\<close>

definition no_textScore :: "string \<Rightarrow> post \<Rightarrow> nat option" where
  "no_textScore t p = None"

text \<open>A small database: two users, four posts, and comments on the first post.\<close>

definition demo_user :: "objid \<Rightarrow> string \<Rightarrow> string \<Rightarrow> string \<Rightarrow> user" where
  "demo_user i name first' last' =
     \<lparr>u_id = i, email = name @ ''@example.com'', username = name, password = ''correct horse'',
      firstName = first', lastName = last', age = Some 30, roles = [USER],
      profile = \<lparr>bio = None, avatar = None, location = None, website = None,
                 twitter = None, linkedin = None, github = None\<rparr>,
      isActive = True, lastLogin = None, u_createdAt = 0, u_updatedAt = 0\<rparr>"

definition demo_post ::
  "objid \<Rightarrow> string \<Rightarrow> objid \<Rightarrow> string list \<Rightarrow> PostStatus \<Rightarrow> time option \<Rightarrow> nat \<Rightarrow> objid list \<Rightarrow> post" where
  "demo_post i title' author' categories' status' publishedAt' views' likes' =
     \<lparr>p_id = i, title = title', slug = generateSlug title', content = ''Some text'',
      excerpt = ''Some text...'', author = author', categories = categories', tags = [],
      featuredImage = None, status = status', publishedAt = publishedAt', readTime = 1,
      views = views', likes = likes', p_createdAt = 0, p_updatedAt = 0\<rparr>"

definition demo_comment :: "objid \<Rightarrow> objid \<Rightarrow> objid \<Rightarrow> objid option \<Rightarrow> bool \<Rightarrow> time \<Rightarrow> comment" where
  "demo_comment i post' author' parent approved created =
     \<lparr>c_id = i, c_post = post', c_author = author', c_content = ''Nice'',
      parentComment = parent, isApproved = approved, c_likes = 0,
      c_createdAt = created, c_updatedAt = created\<rparr>"

definition demo_store :: store where
  "demo_store =
     \<lparr>users = [demo_user 1 ''alice'' ''Alice'' ''Smith'', demo_user 2 ''bob'' ''Bob'' ''Jones''],
      posts =
        [demo_post 1 ''Learn MongoDB'' 1 [''Technology''] PUBLISHED (Some 900000000) 100
           [1, 2, 3, 4],
         demo_post 2 ''Indexes'' 2 [''Technology'', ''Database''] PUBLISHED (Some 950000000) 80
           [1, 2, 3, 4, 5, 6, 7, 8, 9, 10],
         demo_post 3 ''Draft'' 1 [''Technology''] DRAFT None 0 [],
         demo_post 4 ''Old news'' 2 [''History''] PUBLISHED (Some 100000000) 5000 []],
      comments =
        [demo_comment 10 1 2 None True 10,
         demo_comment 11 1 2 None False 11,
         demo_comment 12 1 1 (Some 10) True 12,
         demo_comment 13 1 2 (Some 10) False 13,
         demo_comment 14 1 2 None True 14,
         demo_comment 15 1 2 (Some 14) True 15,
         demo_comment 16 2 2 None True 16,
         demo_comment 17 2 2 None True 17,
         demo_comment 18 2 2 None True 18]\<rparr>"

text \<open>Search criteria that name an author only.\<close>

definition by_author :: "string \<Rightarrow> search_criteria" where
  "by_author name =
     \<lparr>q_text = None, q_categories = None, q_tags = None, q_author = Some name,
      q_dateRange = None, q_minViews = None, q_hasImage = None\<rparr>"

section \<open>Facts about strings\<close>

lemma code_unit_toLowerCase_char:
  "code_unit (toLowerCase_char c) =
     (let n = code_unit c
      in if (65 \<le> n \<and> n \<le> 90) \<or> (192 \<le> n \<and> n \<le> 222 \<and> n \<noteq> 215) then n + 32 else n)"
  by (auto simp: toLowerCase_char_def Let_def code_unit_def)

lemma hyphen_not_space: "is_hyphen c \<Longrightarrow> \<not> is_space c"
  by (simp add: is_hyphen_def is_space_def code_unit_def)

lemma hyphen_not_az09: "is_hyphen c \<Longrightarrow> \<not> is_az09 c"
  by (simp add: is_hyphen_def is_az09_def code_unit_def)

lemma az09_not_space: "is_az09 c \<Longrightarrow> \<not> is_space c"
  by (auto simp: is_az09_def is_space_def Let_def)

lemma toLowerCase_char_az09: "is_az09 c \<Longrightarrow> toLowerCase_char c = c"
  by (auto simp: is_az09_def toLowerCase_char_def Let_def)

lemma toLowerCase_char_hyphen: "is_hyphen c \<Longrightarrow> toLowerCase_char c = c"
  by (simp add: is_hyphen_def toLowerCase_char_def code_unit_def)

section \<open>Slug generation\<close>

lemma set_replace_runs: "set (replace_runs P s) \<subseteq> insert (CHR ''-'') {c \<in> set s. \<not> P c}"
proof (induction P s rule: replace_runs.induct)
  case (1 P)
  then show ?case by simp
next
  case (2 P c cs)
  show ?case
  proof (cases "P c")
    case True
    with 2 have "set (replace_runs P (dropWhile P cs)) \<subseteq> insert (CHR ''-'') {c \<in> set (dropWhile P cs). \<not> P c}"
      by simp
    moreover have "set (dropWhile P cs) \<subseteq> set cs"
      by (auto dest: set_dropWhileD)
    ultimately show ?thesis using True by auto
  next
    case False
    with 2 show ?thesis by auto
  qed
qed

lemma replace_runs_id: "\<forall>c \<in> set s. \<not> P c \<Longrightarrow> replace_runs P s = s"
  by (induction s) auto

lemma replace_runs_head:
  "s = [] \<or> \<not> P (hd s) \<Longrightarrow> replace_runs P s = [] \<or> \<not> P (hd (replace_runs P s))"
  by (cases s) auto

lemma replace_runs_idem: "P (CHR ''-'') \<Longrightarrow> replace_runs P (replace_runs P s) = replace_runs P s"
proof (induction P s rule: replace_runs.induct)
  case (1 P)
  then show ?case by simp
next
  case (2 P c cs)
  show ?case
  proof (cases "P c")
    case True
    let ?r = "replace_runs P (dropWhile P cs)"
    have "dropWhile P cs = [] \<or> \<not> P (hd (dropWhile P cs))"
      using hd_dropWhile by blast
    then have "?r = [] \<or> \<not> P (hd ?r)"
      by (rule replace_runs_head)
    then have "dropWhile P ?r = ?r" by (simp add: dropWhile_eq_self_iff)
    moreover have "replace_runs P ?r = ?r" using 2 True by simp
    ultimately show ?thesis using True 2(3) by simp
  next
    case False
    with 2 show ?thesis by simp
  qed
qed

lemma dropWhile_none: "\<forall>c \<in> set s. \<not> P c \<Longrightarrow> dropWhile P s = s"
  by (cases s) auto

lemma strip_ends_id: "\<forall>c \<in> set s. \<not> P c \<Longrightarrow> strip_ends P s = s"
  by (simp add: strip_ends_def dropWhile_none)

lemma strip_ends_cong: "\<forall>c \<in> set s. P c = Q c \<Longrightarrow> strip_ends P s = strip_ends Q s"
proof -
  assume a: "\<forall>c \<in> set s. P c = Q c"
  then have 1: "dropWhile P s = dropWhile Q s"
    by (intro dropWhile_cong) auto
  have "\<forall>c \<in> set (rev (dropWhile Q s)). P c = Q c"
    using a by (auto dest: set_dropWhileD)
  then have "dropWhile P (rev (dropWhile Q s)) = dropWhile Q (rev (dropWhile Q s))"
    by (intro dropWhile_cong) auto
  with 1 show ?thesis by (simp add: strip_ends_def)
qed

lemma strip_ends_fixed: "(strip_ends P s = s) = (s = [] \<or> (\<not> P (hd s) \<and> \<not> P (last s)))"
proof
  assume eq: "strip_ends P s = s"
  have l1: "length (dropWhile P (rev (dropWhile P s))) \<le> length (dropWhile P s)"
    using length_dropWhile_le [of P "rev (dropWhile P s)"] by simp
  have l2: "length (dropWhile P s) \<le> length s" by (rule length_dropWhile_le)
  from eq have "length (dropWhile P (rev (dropWhile P s))) = length s"
    by (metis length_rev strip_ends_def)
  with l1 l2 have "length (dropWhile P s) = length s" by simp
  then have d1: "dropWhile P s = s"
    by (metis takeWhile_dropWhile_id append_eq_conv_conj length_0_conv append_self_conv2
          length_append add_cancel_left_left)
  with eq have "dropWhile P (rev s) = rev s"
    by (metis rev_swap strip_ends_def)
  with d1 show "s = [] \<or> (\<not> P (hd s) \<and> \<not> P (last s))"
    by (auto simp: dropWhile_eq_self_iff hd_rev)
next
  assume a: "s = [] \<or> (\<not> P (hd s) \<and> \<not> P (last s))"
  show "strip_ends P s = s"
  proof (cases "s = []")
    case True
    then show ?thesis by (simp add: strip_ends_def)
  next
    case False
    with a have "dropWhile P s = s" by (simp add: dropWhile_eq_self_iff)
    moreover from False a have "dropWhile P (rev s) = rev s"
      by (simp add: dropWhile_eq_self_iff hd_rev)
    ultimately show ?thesis by (simp add: strip_ends_def)
  qed
qed

lemma slug_keep_blog_imp: "slug_keep_blog c \<Longrightarrow> slug_keep c"
  by (auto simp: slug_keep_blog_def slug_keep_def is_space_def code_unit_def)

lemma not_space_slug_char: "is_az09 c \<or> is_hyphen c \<Longrightarrow> \<not> is_space c"
  using az09_not_space hyphen_not_space by blast

lemma slug_core_chars:
  assumes "\<And>c. K c \<Longrightarrow> slug_keep c"
    and "c \<in> set (replace_runs is_hyphen (replace_runs is_space (filter K s)))"
  shows "is_az09 c \<or> is_hyphen c"
proof -
  from assms(2) have "c = CHR ''-'' \<or> c \<in> set (replace_runs is_space (filter K s))"
    using set_replace_runs [of is_hyphen "replace_runs is_space (filter K s)"] by auto
  then have "c = CHR ''-'' \<or> (c \<in> set (filter K s) \<and> \<not> is_space c)"
    using set_replace_runs [of is_space "filter K s"] by auto
  then have "c = CHR ''-'' \<or> (slug_keep c \<and> \<not> is_space c)"
    using assms(1) by auto
  then show ?thesis by (auto simp: is_hyphen_def slug_keep_def)
qed

lemma slug_core_no_space:
  assumes "\<And>c. K c \<Longrightarrow> slug_keep c"
  shows "\<forall>c \<in> set (replace_runs is_hyphen (replace_runs is_space (filter K s))). \<not> is_space c"
  using slug_core_chars [OF assms] not_space_slug_char by blast

lemma slug_core_fixed:
  assumes "\<And>c. is_az09 c \<or> is_hyphen c \<Longrightarrow> K c"
    and "\<forall>c \<in> set s. is_az09 c \<or> is_hyphen c"
  shows "trim (replace_runs is_hyphen (replace_runs is_space (filter K (toLowerCase s))))
           = replace_runs is_hyphen s"
proof -
  have 1: "toLowerCase s = s"
    unfolding toLowerCase_def using assms(2)
    by (intro map_idI) (auto simp: toLowerCase_char_az09 toLowerCase_char_hyphen)
  have 2: "filter K s = s" using assms by (intro filter_True) auto
  have 3: "replace_runs is_space s = s"
    using assms(2) not_space_slug_char by (intro replace_runs_id) blast
  have "\<forall>c \<in> set (replace_runs is_hyphen s). \<not> is_space c"
  proof
    fix c assume "c \<in> set (replace_runs is_hyphen s)"
    then have "c = CHR ''-'' \<or> c \<in> set s"
      using set_replace_runs [of is_hyphen s] by auto
    then have "is_az09 c \<or> is_hyphen c"
      using assms(2) by (auto simp: is_hyphen_def)
    then show "\<not> is_space c" by (rule not_space_slug_char)
  qed
  then have "trim (replace_runs is_hyphen s) = replace_runs is_hyphen s"
    unfolding trim_def by (rule strip_ends_id)
  with 1 2 3 show ?thesis by simp
qed

lemma generateSlug_core:
  "generateSlug t = replace_runs is_hyphen (replace_runs is_space (filter slug_keep (toLowerCase t)))"
  unfolding generateSlug_def trim_def
  by (rule strip_ends_id) (rule slug_core_no_space, assumption)

lemma generateSlugFromTitle_core:
  "generateSlugFromTitle t =
     replace_runs is_hyphen (replace_runs is_space (filter slug_keep_blog (toLowerCase t)))"
  unfolding generateSlugFromTitle_def trim_def
  by (rule strip_ends_id) (rule slug_core_no_space, rule slug_keep_blog_imp)

lemma generateSlug_chars: "c \<in> set (generateSlug s) \<Longrightarrow> is_az09 c \<or> is_hyphen c"
  unfolding generateSlug_core by (rule slug_core_chars [of slug_keep]) 

lemma generateSlugFromTitle_chars: "c \<in> set (generateSlugFromTitle s) \<Longrightarrow> is_az09 c \<or> is_hyphen c"
  unfolding generateSlugFromTitle_core by (rule slug_core_chars [of slug_keep_blog, OF slug_keep_blog_imp])

text \<open>
  Claim C9. Slug generation is idempotent: applying it to its own output gives the same
  slug. This holds for the model method \<open>generateSlug\<close> and for the service's
  \<open>generateSlugFromTitle\<close>: the output consists of \<open>[a-z0-9-]\<close> with no two hyphens in
  a row, which every step leaves alone.
\<close>

theorem generateSlug_idempotent:
  "generateSlug (generateSlug s) = generateSlug s
   \<and> generateSlugFromTitle (generateSlugFromTitle s) = generateSlugFromTitle s"
proof
  have "generateSlug (generateSlug s) = replace_runs is_hyphen (generateSlug s)"
    unfolding generateSlug_def [of "generateSlug s"]
    by (rule slug_core_fixed) (use generateSlug_chars in \<open>auto simp: slug_keep_def\<close>)
  also have "\<dots> = generateSlug s"
    unfolding generateSlug_core by (rule replace_runs_idem) (simp add: is_hyphen_def)
  finally show "generateSlug (generateSlug s) = generateSlug s" .
next
  have "generateSlugFromTitle (generateSlugFromTitle s) = replace_runs is_hyphen (generateSlugFromTitle s)"
    unfolding generateSlugFromTitle_def [of "generateSlugFromTitle s"]
    by (rule slug_core_fixed) (use generateSlugFromTitle_chars in \<open>auto simp: slug_keep_blog_def\<close>)
  also have "\<dots> = generateSlugFromTitle s"
    unfolding generateSlugFromTitle_core by (rule replace_runs_idem) (simp add: is_hyphen_def)
  finally show "generateSlugFromTitle (generateSlugFromTitle s) = generateSlugFromTitle s" .
qed

lemma is_space_toLowerCase_char: "is_space (toLowerCase_char c) = is_space c"
  by (auto simp: is_space_def code_unit_toLowerCase_char Let_def)

lemma toLowerCase_char_space: "toLowerCase_char (CHR '' '') = CHR '' ''"
  by (simp add: toLowerCase_char_def code_unit_def)

lemma slug_keep_blog_lower:
  assumes "c = CHR '' '' \<or> \<not> is_space c"
  shows "slug_keep_blog (toLowerCase_char c) = slug_keep (toLowerCase_char c)"
proof (cases "c = CHR '' ''")
  case True
  then show ?thesis
    by (simp add: toLowerCase_char_space slug_keep_blog_def slug_keep_def is_space_def code_unit_def)
next
  case False
  with assms have "\<not> is_space (toLowerCase_char c)" by (simp add: is_space_toLowerCase_char)
  moreover from this have "toLowerCase_char c \<noteq> CHR '' ''"
    by (auto simp: is_space_def code_unit_def)
  ultimately show ?thesis by (simp add: slug_keep_blog_def slug_keep_def)
qed

lemma generateSlugFromTitle_plain:
  assumes "only_plain_spaces t"
  shows "generateSlugFromTitle t = generateSlug t"
proof -
  have "filter slug_keep_blog (toLowerCase t) = filter slug_keep (toLowerCase t)"
    unfolding toLowerCase_def filter_map comp_def
    using assms by (intro arg_cong [where f = "map toLowerCase_char"] filter_cong refl)
      (auto simp: only_plain_spaces_def list_all_iff slug_keep_blog_lower)
  then show ?thesis by (simp add: generateSlug_def generateSlugFromTitle_def)
qed

lemma slugify_spec_strip: "slugify_spec t = strip_ends is_hyphen (generateSlug t)"
proof -
  let ?core = "replace_runs is_hyphen (replace_runs is_space (filter slug_keep (toLowerCase t)))"
  have "\<forall>c \<in> set ?core. (is_hyphen c \<or> is_space c) = is_hyphen c"
    using slug_core_no_space [of slug_keep "toLowerCase t"] by auto
  then have "strip_ends (\<lambda>c. is_hyphen c \<or> is_space c) ?core = strip_ends is_hyphen ?core"
    by (rule strip_ends_cong)
  then show ?thesis by (simp add: slugify_spec_def generateSlug_core)
qed


lemma replace_runs_Nil: "(replace_runs P s = []) = (s = [])"
  by (cases s) auto

lemma hd_replace_runs:
  "s \<noteq> [] \<Longrightarrow> hd (replace_runs P s) = (if P (hd s) then CHR ''-'' else hd s)"
  by (cases s) auto

lemma last_replace_runs:
  "s \<noteq> [] \<Longrightarrow> last (replace_runs P s) = (if P (last s) then CHR ''-'' else last s)"
proof (induction P s rule: replace_runs.induct)
  case (1 P)
  then show ?case by simp
next
  case (2 P c cs)
  show ?case
  proof (cases "P c")
    case True
    show ?thesis
    proof (cases "dropWhile P cs = []")
      case e: True
      then have "\<forall>x \<in> set cs. P x" by simp
      then have "P (last (c # cs))" using True by (cases "cs = []") auto
      moreover have "replace_runs P (c # cs) = [CHR ''-'']"
        using True e by (simp del: dropWhile_eq_Nil_conv)
      ultimately show ?thesis by simp
    next
      case ne: False
      then have "cs \<noteq> []" by auto
      have "last (dropWhile P cs) = last cs"
        using ne by (metis takeWhile_dropWhile_id last_appendR)
      with 2(1) [OF True ne] True ne \<open>cs \<noteq> []\<close> show ?thesis
        by (simp add: replace_runs_Nil)
    qed
  next
    case False
    with 2 show ?thesis by (cases "cs = []") (auto simp: replace_runs_Nil)
  qed
qed

lemma hyphen_ended_core:
  assumes "\<not> space_ended k"
  shows "hyphen_ended (replace_runs is_hyphen (replace_runs is_space k)) = hyphen_ended k"
proof (cases "k = []")
  case True
  then show ?thesis by (simp add: hyphen_ended_def)
next
  case False
  with assms have ns: "\<not> is_space (hd k)" "\<not> is_space (last k)"
    by (auto simp: space_ended_def)
  let ?w = "replace_runs is_space k"
  have w: "?w \<noteq> []" "hd ?w = hd k" "last ?w = last k"
    using False ns by (simp_all add: replace_runs_Nil hd_replace_runs last_replace_runs)
  have "is_hyphen (hd (replace_runs is_hyphen ?w)) = is_hyphen (hd k)"
    using w by (simp add: hd_replace_runs is_hyphen_def)
  moreover have "is_hyphen (last (replace_runs is_hyphen ?w)) = is_hyphen (last k)"
    using w by (simp add: last_replace_runs is_hyphen_def)
  ultimately show ?thesis using False w by (simp add: hyphen_ended_def replace_runs_Nil)
qed

text \<open>
  Claim C1, as amended. The code lowercases, removes every character not in
  \<open>[a-z0-9\s-]\<close>, collapses each run of white space to one hyphen and each run of hyphens
  to one; its final \<open>trim\<close> strips white space only, and no step strips a hyphen from the
  ends. For every title whose retained characters neither begin nor end with white space,
  the result is therefore the reference definition's result with the hyphens at its ends
  still attached, and it equals the reference definition's result exactly when the retained
  characters neither begin nor end with a hyphen. \<open>generateSlugFromTitle\<close> agrees with
  \<open>generateSlug\<close> on titles whose only white space is the space character, and the title
  "Learn MongoDB in 2025!!" gives exactly "learn-mongodb-in-2025".
\<close>

theorem generateSlug_amended:
  assumes "\<not> space_ended (filter slug_keep (toLowerCase t))"
  shows "slugify_spec t = strip_ends is_hyphen (generateSlug t)
   \<and> (generateSlug t = slugify_spec t \<longleftrightarrow> \<not> hyphen_ended (filter slug_keep (toLowerCase t)))
   \<and> (only_plain_spaces t \<longrightarrow> generateSlugFromTitle t = generateSlug t)
   \<and> generateSlug ''Learn MongoDB in 2025!!'' = ''learn-mongodb-in-2025''
   \<and> generateSlugFromTitle ''Learn MongoDB in 2025!!'' = ''learn-mongodb-in-2025''"
proof (intro conjI impI)
  show "slugify_spec t = strip_ends is_hyphen (generateSlug t)" by (rule slugify_spec_strip)
  have "generateSlug t = slugify_spec t \<longleftrightarrow> \<not> hyphen_ended (generateSlug t)"
    unfolding slugify_spec_strip hyphen_ended_def
    using strip_ends_fixed [of is_hyphen "generateSlug t"] by auto
  then show "generateSlug t = slugify_spec t
               \<longleftrightarrow> \<not> hyphen_ended (filter slug_keep (toLowerCase t))"
    unfolding generateSlug_core using hyphen_ended_core [OF assms] by simp
  show "generateSlugFromTitle t = generateSlug t" if "only_plain_spaces t"
    using that by (rule generateSlugFromTitle_plain)
  show "generateSlug ''Learn MongoDB in 2025!!'' = ''learn-mongodb-in-2025''" by code_simp
  show "generateSlugFromTitle ''Learn MongoDB in 2025!!'' = ''learn-mongodb-in-2025''" by code_simp
qed

text \<open>The amended claim at the title "--verbose explained", which begins with a hyphen.\<close>

theorem generateSlug_amended_witness:
  "\<not> space_ended (filter slug_keep (toLowerCase ''--verbose explained''))
   \<and> only_plain_spaces ''--verbose explained''
   \<and> hyphen_ended (filter slug_keep (toLowerCase ''--verbose explained''))
   \<and> generateSlugFromTitle ''--verbose explained'' = generateSlug ''--verbose explained''
   \<and> generateSlug ''--verbose explained'' \<noteq> slugify_spec ''--verbose explained''"
proof -
  have s: "\<not> space_ended (filter slug_keep (toLowerCase ''--verbose explained''))" by code_simp
  have p: "only_plain_spaces ''--verbose explained''" by code_simp
  have h: "hyphen_ended (filter slug_keep (toLowerCase ''--verbose explained''))" by code_simp
  show ?thesis using generateSlug_amended [OF s] s p h by blast
qed

text \<open>
  Claim C1 as stated fails: for the title "--verbose explained" the code returns
  "-verbose-explained", the reference definition "verbose-explained".
\<close>

theorem generateSlug_not_reference:
  "generateSlug ''--verbose explained'' = ''-verbose-explained''
   \<and> slugify_spec ''--verbose explained'' = ''verbose-explained''
   \<and> generateSlug ''--verbose explained'' \<noteq> slugify_spec ''--verbose explained''"
  by code_simp

text \<open>White space that ends up at either end of the retained characters becomes a hyphen
  too, because \<open>trim\<close> runs after the replacements.\<close>

lemma generateSlug_space_at_end:
  "generateSlug ''Why MongoDB ?'' = ''why-mongodb-''
   \<and> generateSlugFromTitle '' Hello '' = ''-hello-''"
  by code_simp

section \<open>Reading time: the code against the specification\<close>

lemma split_ws_nonempty: "split_ws s \<noteq> []"
  by (induction s) (auto split: list.splits)

lemma word_starts_False:
  "word_starts True s = word_starts False s + (if s \<noteq> [] \<and> \<not> is_space (hd s) then 1 else 0)"
  by (cases s) auto

lemma length_split_ws:
  "length (split_ws s) =
     wordCount_spec s + (if s = [] \<or> is_space (hd s) then 1 else 0)
       + (if s \<noteq> [] \<and> is_space (last s) then 1 else 0)"
  unfolding wordCount_spec_def
proof (induction s)
  case Nil
  then show ?case by simp
next
  case (Cons c cs)
  show ?case
  proof (cases "is_space c")
    case True
    then show ?thesis using Cons by (cases cs) auto
  next
    case False
    have "length (split_ws (c # cs)) = length (split_ws cs)"
      using False split_ws_nonempty [of cs] by (auto split: list.splits)
    then show ?thesis
      using False Cons word_starts_False [of cs] by (cases cs) auto
  qed
qed

lemma calculateReadTime_spec:
  assumes "s \<noteq> []" "\<not> is_space (hd s)" "\<not> is_space (last s)"
  shows "calculateReadTime s = readTime_spec s"
proof -
  have l: "length (split_ws s) = wordCount_spec s" using assms by (simp add: length_split_ws)
  have "wordCount_spec s \<ge> 1" using assms by (cases s) (auto simp: wordCount_spec_def)
  then have "ceil_div (wordCount_spec s) 200 \<ge> 1" by (simp add: ceil_div_def)
  then show ?thesis by (simp add: calculateReadTime_def readTime_spec_def l Let_def)
qed

lemma is_space_LF: "is_space (CHR 0x0A)"
  by (simp add: is_space_def code_unit_def)

lemma word_starts_words:
  "word_starts True (concat (replicate n ''word '') @ t) = n + word_starts True t"
  by (induction n) (simp_all add: is_space_def code_unit_def)

lemma hd_words: "hd (concat (replicate (Suc n) ''word '') @ t) = CHR ''w''"
  by simp

lemma wordCount_200:
  "wordCount_spec (concat (replicate 199 ''word '') @ ''word'' @ [CHR 0x0A]) = 200"
  unfolding wordCount_spec_def word_starts_words
  by (simp add: is_space_def code_unit_def)

lemma wordCount_450:
  "wordCount_spec (concat (replicate 449 ''word '') @ ''word'') = 450"
  unfolding wordCount_spec_def word_starts_words
  by (simp add: is_space_def code_unit_def)

text \<open>
  Claim C7. The code counts the pieces of \<open>split(/\s+/)\<close>, not the words: white space at the
  start or the end of the content adds an empty piece each (\<open>length_split_ws\<close>), so the
  reading time is that of the specification only for content without leading and trailing
  white space (\<open>calculateReadTime_spec\<close>). A body of exactly 200 words followed by a newline
  gets 2 minutes where the specification has 1; a body of exactly 450 words gets 3.
\<close>

theorem calculateReadTime_trailing_newline:
  "calculateReadTime (concat (replicate 199 ''word '') @ ''word'' @ [CHR 0x0A]) = 2
   \<and> readTime_spec (concat (replicate 199 ''word '') @ ''word'' @ [CHR 0x0A]) = 1
   \<and> calculateReadTime (concat (replicate 449 ''word '') @ ''word'') = 3"
proof (intro conjI)
  let ?s = "concat (replicate 199 ''word '') @ ''word'' @ [CHR 0x0A]"
  let ?t = "concat (replicate 449 ''word '') @ ''word''"
  have h: "hd ?s = CHR ''w''" using hd_words [of 198] by simp
  have "length (split_ws ?s) = 201"
    unfolding length_split_ws wordCount_200 h by (simp add: is_space_def code_unit_def)
  then show "calculateReadTime ?s = 2"
    by (simp add: calculateReadTime_def ceil_div_def)
  show "readTime_spec ?s = 1"
    unfolding readTime_spec_def wordCount_200 by (simp add: ceil_div_def)
  have h': "hd ?t = CHR ''w''" using hd_words [of 448] by simp
  have "length (split_ws ?t) = 450"
    unfolding length_split_ws wordCount_450 h' by (simp add: is_space_def code_unit_def)
  then show "calculateReadTime ?t = 3"
    by (simp add: calculateReadTime_def ceil_div_def)
qed

section \<open>Queries: general facts\<close>

lemma set_sort_desc: "set (sort_desc k xs) = set xs"
  by (simp add: sort_desc_def)

lemma find_None_conv: "(find P xs = None) = (\<forall>x \<in> set xs. \<not> P x)"
  by (induction xs) auto

lemma find_Some_in: "find P xs = Some x \<Longrightarrow> x \<in> set xs \<and> P x"
  by (induction xs) (auto split: if_splits)

lemma in_limited_sorted_filter:
  "x \<in> set (apply_limit n (sort_desc k (filter P xs))) \<Longrightarrow> x \<in> set xs \<and> P x"
proof -
  assume "x \<in> set (apply_limit n (sort_desc k (filter P xs)))"
  then have "x \<in> set (sort_desc k (filter P xs))"
    by (auto simp: apply_limit_def split: if_splits dest: in_set_takeD)
  then show ?thesis by (simp add: set_sort_desc)
qed


section \<open>Publishing\<close>

lemma pre_save_keeps_publishedAt:
  "publishedAt p = Some t \<Longrightarrow> publishedAt (pre_save now contentModified statusModified p) = Some t"
  by (simp add: pre_save_def Let_def)

lemma pre_save_sets_publishedAt:
  "publishedAt p = None \<Longrightarrow> status p = PUBLISHED
   \<Longrightarrow> publishedAt (pre_save now contentModified True p) = Some now"
  by (simp add: pre_save_def Let_def)

lemma publishPost_sets_publishedAt:
  "publishPost castObjectId st now postId = Inr (st', p') \<Longrightarrow> publishedAt p' = Some now"
  by (auto simp: publishPost_def Let_def split: option.splits)

text \<open>
  Claim C2. The save hook leaves a set \<open>publishedAt\<close> alone (\<open>pre_save_keeps_publishedAt\<close>),
  but \<open>publishPost\<close> writes the current time whatever the post holds
  (\<open>publishPost_sets_publishedAt\<close>): in the example database post 1 is published, with
  \<open>publishedAt\<close> 900000000; publishing it again at time 1000000000 moves its \<open>publishedAt\<close>
  to 1000000000.
\<close>

theorem publishPost_overwrites_publishedAt:
  "map publishedAt (posts demo_store) = [Some 900000000, Some 950000000, None, Some 100000000]
   \<and> map status (posts demo_store) = [PUBLISHED, PUBLISHED, DRAFT, PUBLISHED]
   \<and> (case publishPost hex_objid demo_store 1000000000 ''000000000000000000000001'' of
        Inl e \<Rightarrow> None
      | Inr (st', p') \<Rightarrow> Some (p_id p', publishedAt p', map publishedAt (posts st')))
     = Some (1, Some 1000000000, [Some 1000000000, Some 950000000, None, Some 100000000])"
  by code_simp

section \<open>Comments\<close>


text \<open>The call does store a comment when the ids are well-formed and the trimmed content
  is non-empty and at most 1000 characters long.\<close>

lemma addComment_succeeds:
  assumes "castObjectId (ci_authorId d) = Some a" "castObjectId (ci_postId d) = Some p"
    and "ci_parentCommentId d = None"
    and "trim (ci_content d) \<noteq> []" "length (trim (ci_content d)) \<le> 1000"
  shows "\<exists>st' c. addComment castObjectId st newId now d = Inr (st', c)"
  using assms by (simp add: addComment_def Let_def)



text \<open>
  Claim C4. For every post id and every state of the collections, each comment in the
  result of \<open>getPostWithComments\<close>, top-level or reply, is a stored comment whose
  \<open>isApproved\<close> flag is true.
\<close>

theorem getPostWithComments_only_approved:
  assumes "getPostWithComments castObjectId st postId = Inr (p, ths)"
  shows "\<forall>t \<in> set ths.
           cd_comment (th_top t) \<in> set (comments st) \<and> isApproved (cd_comment (th_top t))
           \<and> (\<forall>r \<in> set (th_replies t).
                 cd_comment r \<in> set (comments st) \<and> isApproved (cd_comment r))"
proof
  fix t assume t: "t \<in> set ths"
  from assms obtain i where i: "castObjectId postId = Some i"
    by (auto simp: getPostWithComments_def split: option.splits)
  show "cd_comment (th_top t) \<in> set (comments st) \<and> isApproved (cd_comment (th_top t))
           \<and> (\<forall>r \<in> set (th_replies t).
                 cd_comment r \<in> set (comments st) \<and> isApproved (cd_comment r))"
  proof (cases "find (\<lambda>p. p_id p = i) (posts st)")
    case None
    with assms i t show ?thesis by (simp add: getPostWithComments_def)
  next
    case (Some q)
    let ?found = "filter (\<lambda>c. c_post c = i \<and> isApproved c \<and> parentComment c = None) (comments st)"
    let ?tops = "take 50 (sort_desc c_createdAt ?found)"
    from assms i Some have
      "ths = map (\<lambda>c. \<lparr>th_top = populate_comment (users st) c,
                        th_replies = populate_replies st ?tops c\<rparr>) ?tops"
      by (simp add: getPostWithComments_def Let_def)
    with t obtain c where c: "c \<in> set ?tops"
      and tc: "t = \<lparr>th_top = populate_comment (users st) c,
                     th_replies = populate_replies st ?tops c\<rparr>"
      by auto
    from c have "c \<in> set ?found" using set_sort_desc in_set_takeD by fastforce
    then have top: "c \<in> set (comments st) \<and> isApproved c" by simp
    have "cd_comment r \<in> set (comments st) \<and> isApproved (cd_comment r)"
      if "r \<in> set (populate_replies st ?tops c)" for r
    proof -
      from that obtain x where "x \<in> set (fetch_replies st ?tops)"
        and "r = populate_comment (users st) x"
        by (auto simp: populate_replies_def dest!: in_set_takeD)
      moreover from this have "x \<in> set (comments st) \<and> isApproved x"
        by (auto simp: fetch_replies_def dest!: in_set_takeD)
      ultimately show ?thesis by (simp add: populate_comment_def)
    qed
    with top tc show ?thesis by (simp add: populate_comment_def)
  qed
qed

text \<open>In the example database the first post has the unapproved comments 11 and 13; the
  result holds the threads 14 (reply 15) and 10 (reply 12).\<close>

theorem getPostWithComments_only_approved_witness:
  "\<exists>p ths. getPostWithComments hex_objid demo_store ''000000000000000000000001'' = Inr (p, ths)
     \<and> map (\<lambda>t. (c_id (cd_comment (th_top t)), map (\<lambda>r. c_id (cd_comment r)) (th_replies t))) ths
         = [(14, [15]), (10, [12])]
     \<and> list_all (\<lambda>t. isApproved (cd_comment (th_top t))
                   \<and> list_all (\<lambda>r. isApproved (cd_comment r)) (th_replies t)) ths"
proof -
  let ?ids = "\<lambda>t. (c_id (cd_comment (th_top t)), map (\<lambda>r. c_id (cd_comment r)) (th_replies t))"
  have "map_sum id (\<lambda>(p, ths). map ?ids ths)
          (getPostWithComments hex_objid demo_store ''000000000000000000000001'')
        = Inr [(14, [15]), (10, [12])]"
    by code_simp
  then obtain p ths where
    r: "getPostWithComments hex_objid demo_store ''000000000000000000000001'' = Inr (p, ths)"
    and m: "map ?ids ths = [(14, [15]), (10, [12])]"
    by (cases "getPostWithComments hex_objid demo_store ''000000000000000000000001''") auto
  from getPostWithComments_only_approved [OF r]
  have "list_all (\<lambda>t. isApproved (cd_comment (th_top t))
                   \<and> list_all (\<lambda>r. isApproved (cd_comment r)) (th_replies t)) ths"
    by (simp add: list_all_iff)
  with r m show ?thesis by - (rule exI [of _ p], rule exI [of _ ths], simp)
qed

section \<open>Similar posts\<close>

text \<open>
  Claim C8. For every well-formed post id and every state of the post collection,
  \<open>findSimilarPosts\<close> returns a sequence of stored posts none of which has the source's id,
  and the empty sequence, not an error, when no post has that id.
\<close>

theorem findSimilarPosts_excludes_source:
  assumes "castObjectId postId = Some i"
  shows "(\<exists>ps. findSimilarPosts castObjectId st postId limit = Inr ps
            \<and> (\<forall>d \<in> set ps. p_id (pd_post d) \<noteq> i \<and> pd_post d \<in> set (posts st)))
         \<and> ((\<forall>p \<in> set (posts st). p_id p \<noteq> i)
              \<longrightarrow> findSimilarPosts castObjectId st postId limit = Inr [])"
proof (cases "find (\<lambda>p. p_id p = i) (posts st)")
  case None
  then show ?thesis using assms by (simp add: findSimilarPosts_def)
next
  case (Some src)
  let ?P = "\<lambda>p. p_id p \<noteq> i \<and> status p = PUBLISHED
                \<and> (any_in (categories p) (categories src) \<or> any_in (tags p) (tags src))"
  let ?sel = "apply_limit (case limit of None \<Rightarrow> 5 | Some n \<Rightarrow> n)
                (sort_desc publishedAt (filter ?P (posts st)))"
  let ?doc = "\<lambda>p. \<lparr>pd_post = p,
                     pd_select = Only [''title'', ''slug'', ''excerpt'', ''author'',
                                       ''publishedAt'', ''views'', ''likesCount''],
                     pd_author = populate_user (users st)
                                   [''username'', ''firstName'', ''lastName''] (author p)\<rparr>"
  have r: "findSimilarPosts castObjectId st postId limit = Inr (map ?doc ?sel)"
    using assms Some by (simp add: findSimilarPosts_def Let_def)
  have "p_id (pd_post d) \<noteq> i \<and> pd_post d \<in> set (posts st)" if "d \<in> set (map ?doc ?sel)" for d
  proof -
    from that obtain p where "p \<in> set ?sel" and d: "d = ?doc p" by auto
    then have "p \<in> set (posts st) \<and> ?P p" by (intro in_limited_sorted_filter)
    with d show ?thesis by simp
  qed
  moreover have "\<not> (\<forall>p \<in> set (posts st). p_id p \<noteq> i)"
    using find_Some_in [OF Some] by auto
  ultimately show ?thesis using r by blast
qed

text \<open>In the example database the posts similar to post 1 are post 2 alone (post 1 itself
  shares all its categories with itself, post 3 is a draft), and there is no post 9.\<close>

theorem findSimilarPosts_excludes_source_witness:
  "map_sum id (map (\<lambda>d. p_id (pd_post d)))
      (findSimilarPosts hex_objid demo_store ''000000000000000000000001'' None) = Inr [2]
   \<and> hex_objid ''000000000000000000000009'' = Some 9
   \<and> findSimilarPosts hex_objid demo_store ''000000000000000000000009'' None = Inr []"
proof -
  have c: "hex_objid ''000000000000000000000009'' = Some 9" by code_simp
  have n: "\<forall>p \<in> set (posts demo_store). p_id p \<noteq> 9" by code_simp
  have "map_sum id (map (\<lambda>d. p_id (pd_post d)))
          (findSimilarPosts hex_objid demo_store ''000000000000000000000001'' None) = Inr [2]"
    by code_simp
  with findSimilarPosts_excludes_source
         [of hex_objid "''000000000000000000000009''" 9 demo_store None] c n
  show ?thesis by simp
qed

section \<open>Searching by author\<close>

lemma matches_query_author:
  "matches_query textScore q p \<Longrightarrow> sq_author q = Some ids \<Longrightarrow> author p \<in> set ids"
  by (simp add: matches_query_def)

lemma matches_query_status: "matches_query textScore q p \<Longrightarrow> status p = sq_status q"
  by (simp add: matches_query_def)

text \<open>
  Claim C3, as amended. The code hands the author name to the store as a regular
  expression (\<open>$regex\<close> with option \<open>i\<close>), not as a literal substring. For search criteria
  with a non-empty author name that the store accepts as a pattern, \<open>searchPosts\<close> does not
  raise; every post it returns is a stored, published post whose author id is among the ids
  \<open>findAuthorsByName\<close> found, each the id of a user one of whose \<open>firstName\<close>, \<open>lastName\<close>
  and \<open>username\<close> the pattern matches; and when the pattern matches no user, the id list and
  the result are empty, whatever posts the store holds.
\<close>

theorem searchPosts_author_filter:
  assumes "q_author query = Some name" "name \<noteq> []" "regex_i name = Some m"
  shows "\<exists>ids ps. findAuthorsByName regex_i (users st) name = Inr ids
           \<and> searchPosts regex_i textScore st query = Inr ps
           \<and> (\<forall>i \<in> set ids. \<exists>u \<in> set (users st).
                 u_id u = i \<and> (m (firstName u) \<or> m (lastName u) \<or> m (username u)))
           \<and> (\<forall>d \<in> set ps. author (pd_post d) \<in> set ids \<and> status (pd_post d) = PUBLISHED
                 \<and> pd_post d \<in> set (posts st))
           \<and> ((\<forall>u \<in> set (users st). \<not> m (firstName u) \<and> \<not> m (lastName u) \<and> \<not> m (username u))
                \<longrightarrow> ids = [] \<and> ps = [])"
proof -
  let ?ids = "map u_id (filter (\<lambda>u. m (firstName u) \<or> m (lastName u) \<or> m (username u)) (users st))"
  have fa: "findAuthorsByName regex_i (users st) name = Inr ?ids"
    by (simp add: findAuthorsByName_def assms)
  let ?text = "case q_text query of None \<Rightarrow> None | Some t \<Rightarrow> if t = [] then None else Some t"
  let ?q = "\<lparr>sq_status = PUBLISHED,
             sq_text = ?text,
             sq_categories = (case q_categories query of
                                None \<Rightarrow> None | Some cs \<Rightarrow> if cs = [] then None else Some cs),
             sq_tags = (case q_tags query of
                          None \<Rightarrow> None | Some ts \<Rightarrow> if ts = [] then None else Some ts),
             sq_author = Some ?ids,
             sq_publishedAt = q_dateRange query,
             sq_views = (case q_minViews query of
                           None \<Rightarrow> None | Some n \<Rightarrow> if n = 0 then None else Some n),
             sq_featuredImage = q_hasImage query\<rparr>"
  let ?found = "filter (matches_query textScore ?q) (posts st)"
  let ?srt = "case ?text of
                None \<Rightarrow> sort_desc publishedAt ?found
              | Some t \<Rightarrow> sort_desc (textScore t) (sort_desc publishedAt ?found)"
  let ?ps = "map (\<lambda>p. \<lparr>pd_post = p, pd_select = AllBut [''content''],
                        pd_author = populate_user (users st)
                          [''username'', ''firstName'', ''lastName''] (author p)\<rparr>) (take 50 ?srt)"
  have r: "searchPosts regex_i textScore st query = Inr ?ps"
    by (simp add: searchPosts_def assms fa Let_def)
  have srt: "set ?srt = set ?found"
    by (cases ?text) (simp_all add: set_sort_desc)
  have members: "author (pd_post d) \<in> set ?ids \<and> status (pd_post d) = PUBLISHED
                 \<and> pd_post d \<in> set (posts st)" if "d \<in> set ?ps" for d
  proof -
    from that obtain p where "p \<in> set (take 50 ?srt)" and d: "pd_post d = p" by auto
    then have "p \<in> set ?srt" by (auto dest: in_set_takeD)
    then have "p \<in> set (posts st) \<and> matches_query textScore ?q p"
      unfolding srt by simp
    with d show ?thesis
      using matches_query_author [of textScore ?q p ?ids] matches_query_status [of textScore ?q p]
      by simp
  qed
  have ids: "\<forall>i \<in> set ?ids. \<exists>u \<in> set (users st).
                 u_id u = i \<and> (m (firstName u) \<or> m (lastName u) \<or> m (username u))"
    by auto
  have none: "?ids = [] \<and> ?ps = []"
    if "\<forall>u \<in> set (users st). \<not> m (firstName u) \<and> \<not> m (lastName u) \<and> \<not> m (username u)"
  proof -
    from that have e: "?ids = []" by (simp add: filter_empty_conv)
    have "?ps = []"
    proof (cases ?ps)
      case Nil
      then show ?thesis .
    next
      case (Cons d ds)
      then have "d \<in> set ?ps" by simp
      from members [OF this] e show ?thesis by simp
    qed
    with e show ?thesis by simp
  qed
  from fa r ids members none show ?thesis by blast
qed

text \<open>In the example database the pattern "carol" matches no user and the search is empty,
  although the search without an author finds three posts; "ALI" matches the first user, who
  wrote the published post 1.\<close>

theorem searchPosts_author_filter_witness:
  "searchPosts dot_regex_i no_textScore demo_store (by_author ''carol'') = Inr []
   \<and> map_sum id (map (\<lambda>d. p_id (pd_post d)))
       (searchPosts dot_regex_i no_textScore demo_store (by_author ''ALI'')) = Inr [1]
   \<and> map_sum id (map (\<lambda>d. p_id (pd_post d)))
       (searchPosts dot_regex_i no_textScore demo_store ((by_author ''carol'')\<lparr>q_author := None\<rparr>))
       = Inr [2, 1, 4]"
proof -
  let ?m = "regex_search ''carol''"
  have a: "q_author (by_author ''carol'') = Some ''carol''" by (simp add: by_author_def)
  have m: "dot_regex_i ''carol'' = Some ?m" by (simp add: dot_regex_i_def is_regex_meta_def)
  have n: "\<forall>u \<in> set (users demo_store). \<not> ?m (firstName u) \<and> \<not> ?m (lastName u) \<and> \<not> ?m (username u)"
    by code_simp
  from searchPosts_author_filter
         [where query = "by_author ''carol''" and name = "''carol''" and regex_i = dot_regex_i
            and m = ?m and st = demo_store and textScore = no_textScore] a m n
  have 1: "searchPosts dot_regex_i no_textScore demo_store (by_author ''carol'') = Inr []"
    by auto
  have 2: "map_sum id (map (\<lambda>d. p_id (pd_post d)))
       (searchPosts dot_regex_i no_textScore demo_store (by_author ''ALI'')) = Inr [1]"
    by code_simp
  have 3: "map_sum id (map (\<lambda>d. p_id (pd_post d)))
       (searchPosts dot_regex_i no_textScore demo_store ((by_author ''carol'')\<lparr>q_author := None\<rparr>))
       = Inr [2, 1, 4]"
    by code_simp
  from 1 2 3 show ?thesis by simp
qed

text \<open>
  Claim C3 as stated fails. No user of the example database has a dot in a name, so the
  author name "." matches no user as a substring; as a pattern it matches every user, and
  the search returns the posts 2, 1 and 4 instead of the empty sequence. The author name "("
  is no substring of a name either; the store refuses it as a pattern and the search raises.
  And with the empty string for the author name the criterion is skipped: in the example
  database without its users, where no user is left to match, the search is the unfiltered
  one.
\<close>

theorem searchPosts_author_not_substring:
  "\<not> list_ex (\<lambda>u. substring_ci ''.'' (firstName u) \<or> substring_ci ''.'' (lastName u)
                   \<or> substring_ci ''.'' (username u)) (users demo_store)
   \<and> map_sum id (map (\<lambda>d. p_id (pd_post d)))
       (searchPosts dot_regex_i no_textScore demo_store (by_author ''.'')) = Inr [2, 1, 4]
   \<and> \<not> list_ex (\<lambda>u. substring_ci ''('' (firstName u) \<or> substring_ci ''('' (lastName u)
                   \<or> substring_ci ''('' (username u)) (users demo_store)
   \<and> searchPosts dot_regex_i no_textScore demo_store (by_author ''('') = Inl InvalidRegex
   \<and> map_sum id (map (\<lambda>d. p_id (pd_post d)))
       (searchPosts dot_regex_i no_textScore (demo_store\<lparr>users := []\<rparr>) (by_author []))
       = Inr [2, 1, 4]"
  by code_simp

text \<open>On a pattern without a dot the instance is the case-insensitive substring test.\<close>

lemma regex_prefix_plain:
  "CHR ''.'' \<notin> set pat \<Longrightarrow> regex_prefix pat s = is_prefix (toLowerCase pat) (toLowerCase s)"
  by (induction pat s rule: regex_prefix.induct) (auto simp: toLowerCase_def)

lemma regex_search_plain:
  "CHR ''.'' \<notin> set pat \<Longrightarrow> regex_search pat s = substring_ci pat s"
  by (induction s) (auto simp: substring_ci_def regex_prefix_plain toLowerCase_def)

section \<open>Popular posts: ranking\<close>

lemma sorted_sort_desc: "sorted_wrt (\<lambda>a b. k b \<le> k a) (sort_desc k xs)"
proof -
  have "sorted (map k (sort_key k (rev xs)))" by (rule sorted_sort_key)
  then have "sorted_wrt (\<lambda>a b. k a \<le> k b) (sort_key k (rev xs))"
    by (simp add: sorted_wrt_map)
  then show ?thesis by (simp add: sort_desc_def sorted_wrt_rev)
qed

lemma length_sort_desc: "length (sort_desc k xs) = length xs"
  by (simp add: sort_desc_def)

lemma length_filter_distinct_key:
  "distinct (map f xs) \<Longrightarrow> length (filter (\<lambda>x. f x = a) xs) \<le> 1"
proof (induction xs)
  case Nil
  then show ?case by simp
next
  case (Cons x xs)
  show ?case
  proof (cases "f x = a")
    case True
    have "f x \<notin> f ` set xs" using Cons.prems by simp
    with True have "\<forall>y \<in> set xs. f y \<noteq> a" by blast
    then have "filter (\<lambda>x. f x = a) xs = []"
      by (simp add: filter_empty_conv)
    with True show ?thesis by simp
  next
    case False
    with Cons show ?thesis by simp
  qed
qed

lemma length_concat_map_le:
  "(\<And>x. x \<in> set xs \<Longrightarrow> length (g x) \<le> 1) \<Longrightarrow> length (concat (map g xs)) \<le> length xs"
proof (induction xs)
  case Nil
  then show ?case by simp
next
  case (Cons x xs)
  have "length (g x) \<le> 1" using Cons.prems by simp
  moreover have "length (concat (map g xs)) \<le> length xs" using Cons by simp
  ultimately show ?case by simp
qed

lemma sorted_wrt_concat_map:
  assumes "sorted_wrt R xs"
    and "\<And>x. x \<in> set xs \<Longrightarrow> sorted_wrt Q (g x)"
    and "\<And>x y x' y'. R x y \<Longrightarrow> x' \<in> set (g x) \<Longrightarrow> y' \<in> set (g y) \<Longrightarrow> Q x' y'"
  shows "sorted_wrt Q (concat (map g xs))"
  using assms(1,2)
proof (induction xs)
  case Nil
  then show ?case by simp
next
  case (Cons x xs)
  then show ?case using assms(3) by (auto simp: sorted_wrt_append)
qed

lemma lookup_author_fields:
  "r' \<in> set (lookup_author us r) \<Longrightarrow>
     pp_id r' = pp_id r \<and> pp_views r' = pp_views r \<and> pp_likesCount r' = pp_likesCount r
     \<and> pp_engagementScore r' = pp_engagementScore r \<and> pp_publishedAt r' = pp_publishedAt r
     \<and> (\<exists>u \<in> set us. u_id u = pp_author r)"
  by (auto simp: lookup_author_def)

lemma sorted_lookup_author:
  "distinct (map u_id us) \<Longrightarrow> sorted_wrt R (lookup_author us r)"
proof -
  assume "distinct (map u_id us)"
  then have "length (lookup_author us r) \<le> 1"
    using length_filter_distinct_key [of u_id us "pp_author r"] by (simp add: lookup_author_def)
  then show ?thesis by (cases "lookup_author us r") (auto simp: le_Suc_eq)
qed

lemma lookup_author_nonempty:
  "u \<in> set us \<Longrightarrow> u_id u = pp_author r \<Longrightarrow> \<exists>r' \<in> set (lookup_author us r). pp_id r' = pp_id r"
proof -
  assume "u \<in> set us" "u_id u = pp_author r"
  then have "u \<in> set (filter (\<lambda>u. u_id u = pp_author r) us)" by simp
  then show ?thesis unfolding lookup_author_def by (auto simp: image_iff intro!: bexI [of _ u])
qed


text \<open>
  What holds of the ranking. With user ids unique, \<open>getPopularPostsThisWeek\<close> returns at
  most 10 rows, in descending order of \<open>engagementScore\<close>; every row is a stored post that is
  published, with \<open>publishedAt\<close> not before \<open>weekAgo\<close>, and carries
  \<open>engagementScore = views * 1 + likesCount * 5\<close> with \<open>likesCount\<close> the number of its likes;
  and a published post dated \<open>weekAgo\<close> or later whose author exists is missing from the
  result only if more than 10 posts qualify and every row of the result scores at least as
  much. A post with 100 views and 4 likes scores 120, one with 80 views and 10 likes 130.
\<close>

lemma getPopularPostsThisWeek_ranking:
  assumes "distinct (map u_id (users st))"
  shows "length (getPopularPostsThisWeek localTZA st now) \<le> 10
    \<and> sorted_wrt (\<lambda>a b. pp_engagementScore b \<le> pp_engagementScore a)
         (getPopularPostsThisWeek localTZA st now)
    \<and> (\<forall>r \<in> set (getPopularPostsThisWeek localTZA st now).
          \<exists>p \<in> set (posts st).
            pp_id r = p_id p \<and> status p = PUBLISHED
            \<and> (\<exists>t. publishedAt p = Some t \<and> weekAgo localTZA now \<le> t)
            \<and> pp_views r = views p \<and> pp_likesCount r = length (likes p)
            \<and> (distinct (likes p) \<longrightarrow> pp_likesCount r = card (set (likes p)))
            \<and> pp_engagementScore r = views p * 1 + length (likes p) * 5)
    \<and> (\<forall>p \<in> set (posts st).
          status p = PUBLISHED
          \<and> (\<exists>t. publishedAt p = Some t \<and> weekAgo localTZA now \<le> t)
          \<and> (\<exists>u \<in> set (users st). u_id u = author p)
          \<and> (\<forall>r \<in> set (getPopularPostsThisWeek localTZA st now). pp_id r \<noteq> p_id p)
          \<longrightarrow> 10 < length (filter (popular_match (weekAgo localTZA now)) (posts st))
              \<and> (\<forall>r \<in> set (getPopularPostsThisWeek localTZA st now).
                    views p * 1 + length (likes p) * 5 \<le> pp_engagementScore r))
    \<and> engagementScore 100 4 = 120 \<and> engagementScore 80 10 = 130"
proof -
  let ?R = "\<lambda>a b. pp_engagementScore b \<le> pp_engagementScore a"
  let ?cand = "map popular_project (filter (popular_match (weekAgo localTZA now)) (posts st))"
  let ?sorted = "sort_desc pp_engagementScore ?cand"
  let ?top = "take 10 ?sorted"
  let ?res = "getPopularPostsThisWeek localTZA st now"
  have res: "?res = concat (map (lookup_author (users st)) ?top)"
    by (simp add: getPopularPostsThisWeek_def)
  have one: "length (lookup_author (users st) r) \<le> 1" for r
    using length_filter_distinct_key [OF assms, of "pp_author r"] by (simp add: lookup_author_def)
  have len: "length ?res \<le> 10"
  proof -
    have "length ?res \<le> length ?top" unfolding res by (rule length_concat_map_le) (rule one)
    then show ?thesis by simp
  qed
  have top_sorted: "sorted_wrt ?R ?top"
    by (intro sorted_wrt_take sorted_sort_desc)
  have srt: "sorted_wrt ?R ?res"
    unfolding res
  proof (rule sorted_wrt_concat_map [OF top_sorted])
    show "sorted_wrt ?R (lookup_author (users st) x)" for x
      using assms by (rule sorted_lookup_author)
    show "?R x' y'" if "?R x y" "x' \<in> set (lookup_author (users st) x)"
      "y' \<in> set (lookup_author (users st) y)" for x y x' y'
      using that lookup_author_fields [of x' "users st" x] lookup_author_fields [of y' "users st" y]
      by simp
  qed
  have from_top: "\<exists>x \<in> set ?top. r \<in> set (lookup_author (users st) x)" if "r \<in> set ?res" for r
    using that unfolding res by auto
  have top_cand: "\<exists>p \<in> set (posts st). popular_match (weekAgo localTZA now) p \<and> x = popular_project p"
    if "x \<in> set ?top" for x
  proof -
    from that have "x \<in> set ?cand" using in_set_takeD set_sort_desc by fastforce
    then show ?thesis by auto
  qed
  have sound: "\<exists>p \<in> set (posts st).
            pp_id r = p_id p \<and> status p = PUBLISHED
            \<and> (\<exists>t. publishedAt p = Some t \<and> weekAgo localTZA now \<le> t)
            \<and> pp_views r = views p \<and> pp_likesCount r = length (likes p)
            \<and> (distinct (likes p) \<longrightarrow> pp_likesCount r = card (set (likes p)))
            \<and> pp_engagementScore r = views p * 1 + length (likes p) * 5"
    if "r \<in> set ?res" for r
  proof -
    from from_top [OF that] obtain x where x: "x \<in> set ?top"
      and rx: "r \<in> set (lookup_author (users st) x)" by blast
    from top_cand [OF x] obtain p where p: "p \<in> set (posts st)" "popular_match (weekAgo localTZA now) p"
      and xp: "x = popular_project p" by blast
    from p(2) have "status p = PUBLISHED
        \<and> (\<exists>t. publishedAt p = Some t \<and> weekAgo localTZA now \<le> t)"
      by (auto simp: popular_match_def split: option.splits)
    moreover from lookup_author_fields [OF rx] xp have
      "pp_id r = p_id p \<and> pp_views r = views p \<and> pp_likesCount r = length (likes p)
       \<and> (distinct (likes p) \<longrightarrow> pp_likesCount r = card (set (likes p)))
       \<and> pp_engagementScore r = views p * 1 + length (likes p) * 5"
      by (simp add: popular_project_def engagementScore_def Let_def distinct_card)
    ultimately show ?thesis using p(1) by blast
  qed
  have complete: "10 < length (filter (popular_match (weekAgo localTZA now)) (posts st))
              \<and> (\<forall>r \<in> set ?res. views p * 1 + length (likes p) * 5 \<le> pp_engagementScore r)"
    if p: "p \<in> set (posts st)" and pub: "status p = PUBLISHED"
      and t: "\<exists>t. publishedAt p = Some t \<and> weekAgo localTZA now \<le> t"
      and u: "\<exists>u \<in> set (users st). u_id u = author p"
      and out: "\<forall>r \<in> set ?res. pp_id r \<noteq> p_id p" for p
  proof -
    let ?x = "popular_project p"
    from pub t have "popular_match (weekAgo localTZA now) p"
      by (auto simp: popular_match_def)
    with p have in_sorted: "?x \<in> set ?sorted" by (simp add: set_sort_desc)
    have not_top: "?x \<notin> set ?top"
    proof
      assume "?x \<in> set ?top"
      moreover from u obtain v where "v \<in> set (users st)" "u_id v = pp_author ?x"
        by (auto simp: popular_project_def Let_def)
      then obtain r' where "r' \<in> set (lookup_author (users st) ?x)" "pp_id r' = pp_id ?x"
        using lookup_author_nonempty by blast
      ultimately have "r' \<in> set ?res" "pp_id r' = p_id p"
        unfolding res by (auto simp: popular_project_def Let_def)
      with out show False by blast
    qed
    have split: "?sorted = ?top @ drop 10 ?sorted" by simp
    from in_sorted not_top have in_drop: "?x \<in> set (drop 10 ?sorted)"
      by (metis split Un_iff set_append)
    then have "10 < length ?sorted" by (cases "10 < length ?sorted") auto
    then have many: "10 < length (filter (popular_match (weekAgo localTZA now)) (posts st))"
      by (simp add: length_sort_desc)
    have "sorted_wrt ?R (?top @ drop 10 ?sorted)"
      using sorted_sort_desc [of pp_engagementScore ?cand] by simp
    then have above: "\<forall>y \<in> set ?top. pp_engagementScore ?x \<le> pp_engagementScore y"
      using in_drop unfolding sorted_wrt_append by blast
    have "views p * 1 + length (likes p) * 5 \<le> pp_engagementScore r" if "r \<in> set ?res" for r
    proof -
      from from_top [OF that] obtain y where y: "y \<in> set ?top"
        and ry: "r \<in> set (lookup_author (users st) y)" by blast
      from lookup_author_fields [OF ry] have "pp_engagementScore r = pp_engagementScore y" by simp
      moreover from above y have "pp_engagementScore ?x \<le> pp_engagementScore y" by blast
      ultimately show ?thesis by (simp add: popular_project_def engagementScore_def Let_def)
    qed
    with many show ?thesis by blast
  qed
  have ex: "engagementScore 100 4 = 120 \<and> engagementScore 80 10 = 130"
    by (simp add: engagementScore_def)
  from len srt sound complete ex show ?thesis by blast
qed

text \<open>Where local time has a fixed offset, \<open>weekAgo\<close> is 168 hours before \<open>now\<close>.\<close>

lemma weekAgo_fixed_offset:
  "(\<And>t b. localTZA t b = off) \<Longrightarrow> weekAgo localTZA now = now - 7 * 24 * 60 * 60 * 1000"
  by (simp add: weekAgo_def msPerDay_def Let_def)

text \<open>In the example database, at time 1000000000, post 1 (100 views, 4 likes) scores 120
  and ranks below post 2 (80 views, 10 likes), which scores 130; post 4 is older than a week
  and post 3 a draft.\<close>

lemma getPopularPostsThisWeek_example:
  "map (\<lambda>r. (pp_id r, pp_views r, pp_likesCount r, pp_engagementScore r))
       (getPopularPostsThisWeek utc_zone demo_store 1000000000)
     = [(2, 80, 10, 130), (1, 100, 4, 120)]"
  by code_simp

text \<open>
  Claim C6. The \<open>$match\<close> stage tests \<open>publishedAt >= weekAgo\<close> and nothing else, so a
  published post dated after the current time is ranked as well, although it is not of the
  last seven days; \<open>isPublished\<close> and \<open>getPostsByCategory\<close> do test that \<open>publishedAt\<close> is not
  after the current time. In the example database at time 500000000, the posts 2 and 1 are
  dated 950000000 and 900000000, after that time, and \<open>isPublished\<close> is false of them; of the
  last seven days is post 4 alone, dated 100000000. The code returns all three.
\<close>

theorem getPopularPostsThisWeek_future_dated:
  "weekAgo utc_zone 500000000 = 500000000 - 604800000
   \<and> map (\<lambda>p. (p_id p, publishedAt p, isPublished 500000000 p)) (posts demo_store)
       = [(1, Some 900000000, False), (2, Some 950000000, False), (3, None, False),
          (4, Some 100000000, True)]
   \<and> map (\<lambda>r. (pp_id r, pp_publishedAt r, pp_engagementScore r))
       (getPopularPostsThisWeek utc_zone demo_store 500000000)
       = [(4, Some 100000000, 5000), (2, Some 950000000, 130), (1, Some 900000000, 120)]"
  by code_simp

section \<open>Creating users\<close>

lemma user_field_userName: "user_field u ''userName'' = None"
  by (simp add: user_field_def)

lemma user_field_email: "user_field u ''email'' = Some (email u)"
  by (simp add: user_field_def)

text \<open>An input whose e-mail, as the schema normalises it, is that of a stored user is
  refused by the existence check.\<close>

lemma createUser_email_conflict:
  assumes "u \<in> set (users st)" "email u = trim (toLowerCase (in_email userData))"
  shows "createUser st newId now userData = Inl EmailAlreadyRegistered
         \<or> createUser st newId now userData = Inl UsernameAlreadyTaken"
proof -
  let ?P = "\<lambda>u. user_field u ''email'' = Some (trim (toLowerCase (in_email userData)))
                 \<or> user_field u ''userName'' = Some (in_username userData)"
  from assms have "\<not> (\<forall>x \<in> set (users st). \<not> ?P x)"
    by (auto simp: user_field_email)
  then obtain e where "find ?P (users st) = Some e"
    using find_None_conv [of ?P "users st"] by (cases "find ?P (users st)") auto
  then show ?thesis by (simp add: createUser_def)
qed

text \<open>An input with a fresh e-mail and a fresh username that passes validation is
  stored.\<close>

lemma createUser_fresh_valid:
  assumes "\<forall>u \<in> set (users st). email u \<noteq> trim (toLowerCase (in_email userData))
                                 \<and> username u \<noteq> in_username userData"
    and "validate_user (new_User newId now userData)"
  shows "createUser st newId now userData
           = Inr (st\<lparr>users := users st @ [new_User newId now userData]\<rparr>,
                  new_User newId now userData)"
proof -
  let ?P = "\<lambda>u. user_field u ''email'' = Some (trim (toLowerCase (in_email userData)))
                 \<or> user_field u ''userName'' = Some (in_username userData)"
  from assms(1) have "find ?P (users st) = None"
    by (simp add: find_None_conv user_field_email user_field_userName)
  moreover from assms(1) have
    "\<not> list_ex (\<lambda>u. email u = email (new_User newId now userData)
                     \<or> username u = username (new_User newId now userData)) (users st)"
    by (auto simp: list_ex_iff new_User_def)
  ultimately show ?thesis using assms(2) by (simp add: createUser_def Let_def)
qed

text \<open>An input that repeats a stored username with a fresh e-mail passes the existence
  check, whose second clause names the path \<open>userName\<close>; it is refused by validation or,
  when valid, by the unique index.\<close>

lemma createUser_username_only:
  assumes "\<forall>u \<in> set (users st). email u \<noteq> trim (toLowerCase (in_email userData))"
    and "u \<in> set (users st)" "username u = in_username userData"
  shows "createUser st newId now userData
           = Inl (if validate_user (new_User newId now userData) then DuplicateKey
                  else ValidationFailed)"
proof -
  let ?P = "\<lambda>u. user_field u ''email'' = Some (trim (toLowerCase (in_email userData)))
                 \<or> user_field u ''userName'' = Some (in_username userData)"
  from assms(1) have "find ?P (users st) = None"
    by (simp add: find_None_conv user_field_email user_field_userName)
  moreover from assms(2,3) have
    "list_ex (\<lambda>u. email u = email (new_User newId now userData)
                   \<or> username u = username (new_User newId now userData)) (users st)"
    by (auto simp: list_ex_iff new_User_def)
  ultimately show ?thesis by (simp add: createUser_def Let_def)
qed

text \<open>
  Claim C5. In the example database, where "alice" is a stored username, an input with that
  username, a fresh e-mail and a password of five characters fails validation, not the
  uniqueness check; the same input with a stored e-mail and a fresh username is refused as
  already registered; and with a valid password the duplicate username is caught by the
  store's unique index only.
\<close>

theorem createUser_duplicate_username:
  "createUser demo_store 3 50
     \<lparr>in_email = ''carol@example.com'', in_username = ''alice'', in_firstName = ''Carol'',
      in_lastName = ''White'', in_password = ''short'', in_age = None, in_roles = None\<rparr>
     = Inl ValidationFailed
   \<and> createUser demo_store 3 50
     \<lparr>in_email = ''alice@example.com'', in_username = ''carol'', in_firstName = ''Carol'',
      in_lastName = ''White'', in_password = ''short'', in_age = None, in_roles = None\<rparr>
     = Inl EmailAlreadyRegistered
   \<and> createUser demo_store 3 50
     \<lparr>in_email = ''carol@example.com'', in_username = ''alice'', in_firstName = ''Carol'',
      in_lastName = ''White'', in_password = ''long enough'', in_age = None, in_roles = None\<rparr>
     = Inl DuplicateKey"
  by code_simp

end
